theory Spec2Isabelle
  imports Complex_Main
begin

section \<open>Consensus clustering (algorithms/monti.py): data model\<close>

text \<open>
  The engine is the class \<open>ConsensusCluster\<close>. Numbers that numpy keeps as float64 are
  modelled as exact reals: rounding is not represented. Python exceptions are values of
  the type \<open>error\<close>, and every function that can raise returns \<open>error + 'a\<close> with
  \<open>Inl\<close> for the exception.

  Python attribute names that end in an underscore (\<open>L_\<close>, \<open>K_\<close>, \<open>H_\<close>,
  \<open>resample_proportion_\<close>) are written with the suffix \<open>cfg\<close>, because a trailing
  underscore is not an identifier here.
\<close>

datatype error = AssertionError | IndexError | ValueError | TypeError

type_synonym matrix = "real list list"

text \<open>
  \<open>self.Mk\<close> holds a three-dimensional array after \<open>fit\<close> and a two-dimensional one
  after \<open>fit_from_cfg\<close>; indexing the latter gives a one-dimensional row.
\<close>

datatype ndarray = Arr3 "matrix list" | Arr2 matrix | Arr1 "real list"

record engine =
  L_cfg :: int
  K_cfg :: int
  H_cfg :: int
  resample_proportion_cfg :: real
  Mk :: "ndarray option"
  Ak :: "real list option"
  deltaK :: "real list option"
  bestK :: "int option"
  X :: "real list list option"

text \<open>
  \<open>__init__\<close> (lines 33-43). The clustering class \<open>cluster\<close> is an external
  collaborator and is not stored in the model; its results enter \<open>fit\<close> as trial
  observations. The attribute \<open>X\<close> does not exist before \<open>fit_from_cfg\<close>: \<open>None\<close>
  stands for its absence.
\<close>

definition init :: "int \<Rightarrow> int \<Rightarrow> int \<Rightarrow> real \<Rightarrow> error + engine" where
  "init L K H resample_proportion =
     (if \<not> (0 \<le> resample_proportion \<and> resample_proportion \<le> 1) then Inl AssertionError
      else Inr \<lparr>L_cfg = L, K_cfg = K, H_cfg = H,
                resample_proportion_cfg = resample_proportion,
                Mk = None, Ak = None, deltaK = None, bestK = None, X = None\<rparr>)"


section \<open>Arrays\<close>

text \<open>
  An \<open>N\<close> by \<open>N\<close> array is a list of \<open>N\<close> rows of \<open>N\<close> entries. \<open>mat N f\<close> builds
  the array whose entry in row \<open>r\<close> and column \<open>c\<close> is \<open>f r c\<close>; the elementwise numpy
  operations of the source are written with it. An in-place operation whose right-hand
  side overlaps its target (\<open>Is += Is.T\<close>) reads the old values, as numpy does by
  buffering an overlapping operand.
\<close>

definition mat :: "nat \<Rightarrow> (nat \<Rightarrow> nat \<Rightarrow> real) \<Rightarrow> matrix" where
  "mat N f = map (\<lambda>r. map (\<lambda>c. f r c) [0..<N]) [0..<N]"

definition zeros :: "nat \<Rightarrow> matrix" where
  "zeros N = mat N (\<lambda>r c. 0)"

definition eye :: "nat \<Rightarrow> matrix" where
  "eye N = mat N (\<lambda>r c. if r = c then 1 else 0)"

text \<open>\<open>A += A.T\<close>\<close>

definition add_transpose :: "nat \<Rightarrow> matrix \<Rightarrow> matrix" where
  "add_transpose N A = mat N (\<lambda>r c. A ! r ! c + A ! c ! r)"

text \<open>\<open>A /= B + 1e-8\<close>\<close>

definition divide_eps :: "nat \<Rightarrow> matrix \<Rightarrow> matrix \<Rightarrow> matrix" where
  "divide_eps N A B = mat N (\<lambda>r c. A ! r ! c / (B ! r ! c + 1 / 100000000))"

text \<open>\<open>A += B\<close>\<close>

definition add_mat :: "nat \<Rightarrow> matrix \<Rightarrow> matrix \<Rightarrow> matrix" where
  "add_mat N A B = mat N (\<lambda>r c. A ! r ! c + B ! r ! c)"

text \<open>
  \<open>xs[js]\<close> with an index array \<open>js\<close>: the selected entries in the order of \<open>js\<close>, or
  \<open>IndexError\<close> when an index is out of range. Indices are naturals: the row indices
  and positions of the source are never negative.
\<close>

definition fancy :: "'a list \<Rightarrow> nat list \<Rightarrow> error + 'a list" where
  "fancy xs js =
     (if list_all (\<lambda>j. j < length xs) js then Inr (map (\<lambda>j. xs ! j) js)
      else Inl IndexError)"

text \<open>
  \<open>A[rows, cols] += 1\<close>, the pairs \<open>(rows[j], cols[j])\<close> given as a list: numpy
  computes \<open>A[rows, cols] + 1\<close> and stores it back, so a cell named by some pair is
  raised by one, however often it is named; an index out of range is \<open>IndexError\<close>.
\<close>

definition add_at :: "nat \<Rightarrow> matrix \<Rightarrow> (nat \<times> nat) list \<Rightarrow> error + matrix" where
  "add_at N A ps =
     (if list_all (\<lambda>p. fst p < N \<and> snd p < N) ps
      then Inr (mat N (\<lambda>r c. A ! r ! c + (if (r, c) \<in> set ps then 1 else 0)))
      else Inl IndexError)"

text \<open>\<open>list(itertools.combinations(xs, 2))\<close>\<close>

fun combinations2 :: "'a list \<Rightarrow> ('a \<times> 'a) list" where
  "combinations2 [] = []"
| "combinations2 (x # xs) = map (\<lambda>y. (x, y)) xs @ combinations2 xs"

text \<open>\<open>list(range(a, b))\<close>\<close>

definition py_range :: "int \<Rightarrow> int \<Rightarrow> int list" where
  "py_range a b = [a..b - 1]"

text \<open>\<open>xs[ia:ib]\<close> for non-negative bounds\<close>

definition slice :: "'a list \<Rightarrow> nat \<Rightarrow> nat \<Rightarrow> 'a list" where
  "slice xs ia ib = take (ib - ia) (drop ia xs)"

text \<open>
  \<open>bisect.bisect_left(a, x)\<close> and \<open>bisect.bisect_right(a, x)\<close> of the standard library:
  binary search between \<open>lo = 0\<close> and \<open>hi = len(a)\<close>.
\<close>

function bisect_left_loop :: "int list \<Rightarrow> int \<Rightarrow> nat \<Rightarrow> nat \<Rightarrow> nat" where
  "bisect_left_loop a x lo hi =
     (if lo < hi then
        (let mid = (lo + hi) div 2 in
         if a ! mid < x then bisect_left_loop a x (mid + 1) hi
         else bisect_left_loop a x lo mid)
      else lo)"
  by pat_completeness auto
termination
  by (relation "measure (\<lambda>(a, x, lo, hi). hi - lo)") auto

function bisect_right_loop :: "int list \<Rightarrow> int \<Rightarrow> nat \<Rightarrow> nat \<Rightarrow> nat" where
  "bisect_right_loop a x lo hi =
     (if lo < hi then
        (let mid = (lo + hi) div 2 in
         if x < a ! mid then bisect_right_loop a x lo mid
         else bisect_right_loop a x (mid + 1) hi)
      else lo)"
  by pat_completeness auto
termination
  by (relation "measure (\<lambda>(a, x, lo, hi). hi - lo)") auto

definition bisect_left :: "int list \<Rightarrow> int \<Rightarrow> nat" where
  "bisect_left a x = bisect_left_loop a x 0 (length a)"

definition bisect_right :: "int list \<Rightarrow> int \<Rightarrow> nat" where
  "bisect_right a x = bisect_right_loop a x 0 (length a)"

section \<open>One resampling trial\<close>

text \<open>
  A trial calls three library functions whose results the class does not determine:
  \<open>util.resample\<close> (the drawn row indices; the drawn rows themselves are only passed
  on), the clustering primitive (\<open>Mh\<close>, one label per drawn row) and \<open>np.argsort(Mh)\<close>
  (\<open>id_clusts\<close>; its default sort is not stable, so the order among equal labels is
  not fixed by \<open>Mh\<close>). A \<open>trial\<close> records what the three calls returned.
\<close>

record trial =
  resampled_indices :: "nat list"
  Mh :: "int list"
  id_clusts :: "nat list"

text \<open>
  The loop over the clusters (lines 69-77, and 122-130 in \<open>fit_from_cfg\<close>): the
  accumulator \<open>M\<close> is the slice \<open>Mk[i_]\<close> in \<open>fit\<close> and \<open>Mk\<close> in \<open>fit_from_cfg\<close>.
\<close>

fun clusters_loop :: "nat \<Rightarrow> trial \<Rightarrow> int list \<Rightarrow> matrix \<Rightarrow> int list \<Rightarrow> error + matrix" where
  "clusters_loop N t sorted_Mh M [] = Inr M"
| "clusters_loop N t sorted_Mh M (i # rest) =
     (let ia = bisect_left sorted_Mh i;
          ib = bisect_right sorted_Mh i;
          cluster_indices = slice (id_clusts t) ia ib
      in case fancy (resampled_indices t) cluster_indices of
           Inl e \<Rightarrow> Inl e
         | Inr is_rows \<Rightarrow>
             (let ids = combinations2 is_rows
              in if ids \<noteq> [] then
                   (case add_at N M ids of
                      Inl e \<Rightarrow> Inl e
                    | Inr M' \<Rightarrow> clusters_loop N t sorted_Mh M' rest)
                 else clusters_loop N t sorted_Mh M rest))"

text \<open>
  The count of co-occurrences (lines 79-80, 132-133). With fewer than two drawn rows
  the list of pairs is empty, \<open>ids_2\<close> is an array of shape \<open>(0,)\<close>, and \<open>ids_2[0]\<close>
  raises \<open>IndexError\<close>.
\<close>

definition count_pairs :: "nat \<Rightarrow> matrix \<Rightarrow> nat list \<Rightarrow> error + matrix" where
  "count_pairs N Is rows =
     (let ids_2 = combinations2 rows
      in if ids_2 = [] then Inl IndexError else add_at N Is ids_2)"

text \<open>The body of the loop over \<open>h\<close> in \<open>fit\<close> (lines 63-80), for \<open>k\<close> clusters.\<close>

definition fit_trial :: "nat \<Rightarrow> int \<Rightarrow> trial \<Rightarrow> matrix \<times> matrix \<Rightarrow> error + matrix \<times> matrix" where
  "fit_trial N k t s =
     (case fancy (Mh t) (id_clusts t) of
        Inl e \<Rightarrow> Inl e
      | Inr sorted_Mh \<Rightarrow>
          (case clusters_loop N t sorted_Mh (fst s) (py_range 0 k) of
             Inl e \<Rightarrow> Inl e
           | Inr M' \<Rightarrow>
               (case count_pairs N (snd s) (resampled_indices t) of
                  Inl e \<Rightarrow> Inl e
                | Inr Is' \<Rightarrow> Inr (M', Is'))))"

text \<open>
  The body of the loop over \<open>h\<close> in \<open>fit_from_cfg\<close> (lines 110-133): the number of
  clusters is the number of distinct labels.
\<close>

definition cfg_trial :: "nat \<Rightarrow> trial \<Rightarrow> matrix \<times> matrix \<Rightarrow> error + matrix \<times> matrix" where
  "cfg_trial N t s =
     (case fancy (Mh t) (id_clusts t) of
        Inl e \<Rightarrow> Inl e
      | Inr sorted_Mh \<Rightarrow>
          (let k = int (length (remdups sorted_Mh))
           in case clusters_loop N t sorted_Mh (fst s) (py_range 0 k) of
                Inl e \<Rightarrow> Inl e
              | Inr M' \<Rightarrow>
                  (case count_pairs N (snd s) (resampled_indices t) of
                     Inl e \<Rightarrow> Inl e
                   | Inr Is' \<Rightarrow> Inr (M', Is'))))"

text \<open>
  The loop over \<open>h\<close>: \<open>body h\<close> is the trial with number \<open>h\<close>; the state is the pair of
  the accumulator and the counter \<open>Is\<close>.
\<close>

fun trials_loop :: "(int \<Rightarrow> matrix \<times> matrix \<Rightarrow> error + matrix \<times> matrix) \<Rightarrow>
    matrix \<times> matrix \<Rightarrow> int list \<Rightarrow> error + matrix \<times> matrix" where
  "trials_loop body s [] = Inr s"
| "trials_loop body s (h # hs) =
     (case body h s of Inl e \<Rightarrow> Inl e | Inr s' \<Rightarrow> trials_loop body s' hs)"

text \<open>
  Lines 81-86 (134-138): the consensus matrix from the accumulator and the counter, and
  the counter after \<open>Is.fill(0)\<close>.
\<close>

definition consensus :: "nat \<Rightarrow> matrix \<times> matrix \<Rightarrow> matrix \<times> matrix" where
  "consensus N s =
     (let Is1 = add_transpose N (snd s);
          M1 = divide_eps N (fst s) Is1;
          M2 = add_transpose N M1;
          M3 = add_mat N M2 (eye N)
      in (M3, zeros N))"

section \<open>fit\<close>

text \<open>
  The loop over the candidate counts (lines 56-86). \<open>draw k h\<close> is the trial observed
  for the count \<open>k\<close> at resampling \<open>h\<close>. The state is the whole array \<open>Mk\<close> and the
  counter \<open>Is\<close>, which is the same array in every iteration.
\<close>

fun counts_loop :: "nat \<Rightarrow> int \<Rightarrow> int \<Rightarrow> (int \<Rightarrow> int \<Rightarrow> trial) \<Rightarrow>
    matrix list \<times> matrix \<Rightarrow> int list \<Rightarrow> error + matrix list \<times> matrix" where
  "counts_loop N L H draw s [] = Inr s"
| "counts_loop N L H draw s (k # ks) =
     (let i = nat (k - L)
      in case trials_loop (\<lambda>h. fit_trial N k (draw k h)) (fst s ! i, snd s) (py_range 0 H) of
           Inl e \<Rightarrow> Inl e
         | Inr s' \<Rightarrow>
             (let c = consensus N s'
              in counts_loop N L H draw ((fst s)[i := fst c], snd c) ks))"

text \<open>
  \<open>np.histogram(a, density=True)\<close> is a library call on float64 values: which bin a
  value falls into depends on the rounding of the bin edges, which the reals do not
  show. Its result, the densities and the bin edges, therefore enters \<open>fit\<close> as an
  observation, the function \<open>histogram\<close>, as the trials do. With numpy's defaults the
  call returns ten densities and eleven edges.
\<close>

type_synonym histogram = "real list \<Rightarrow> real list \<times> real list"


text \<open>\<open>np.cumsum\<close>\<close>

fun cumsum_from :: "real \<Rightarrow> real list \<Rightarrow> real list" where
  "cumsum_from acc [] = []"
| "cumsum_from acc (x # xs) = (acc + x) # cumsum_from (acc + x) xs"

definition cumsum :: "real list \<Rightarrow> real list" where
  "cumsum xs = cumsum_from 0 xs"

text \<open>
  Lines 92-94, for one consensus matrix \<open>m\<close>: \<open>m.ravel()\<close> is the concatenation of the
  rows, and the sum runs over \<open>zip(bins[1:], bins[:-1], np.cumsum(hist))\<close>.
\<close>

definition cdf_area :: "histogram \<Rightarrow> matrix \<Rightarrow> real" where
  "cdf_area histogram m =
     (let hb = histogram (concat m);
          hist = fst hb;
          bins = snd hb
      in sum_list (map (\<lambda>(b, a, h). h * (b - a))
           (zip (tl bins) (zip (butlast bins) (cumsum hist)))))"

text \<open>Lines 97-98.\<close>

definition delta_curve :: "int \<Rightarrow> int \<Rightarrow> real list \<Rightarrow> real list" where
  "delta_curve L K A =
     map (\<lambda>(Ab, Aa, i). if i > 2 then (Ab - Aa) / Aa else Aa)
       (zip (tl A) (zip (butlast A) (py_range L (K - 1))))"

text \<open>
  \<open>np.argmax\<close> of a non-empty array: one pass that keeps the first index of the
  greatest value seen.
\<close>

fun argmax_from :: "nat \<Rightarrow> real \<Rightarrow> nat \<Rightarrow> real list \<Rightarrow> nat" where
  "argmax_from best v j [] = best"
| "argmax_from best v j (x # xs) =
     (if v < x then argmax_from j x (j + 1) xs else argmax_from best v (j + 1) xs)"

definition argmax :: "real list \<Rightarrow> nat" where
  "argmax xs = argmax_from 0 (hd xs) 1 (tl xs)"

text \<open>Lines 99-100.\<close>

definition best_count :: "int \<Rightarrow> real list \<Rightarrow> int" where
  "best_count L dK = (if length dK > 0 then int (argmax dK) + L else L)"

text \<open>
  \<open>fit\<close> (lines 45-100). \<open>np.zeros\<close> with a negative first dimension raises
  \<open>ValueError\<close>. The slices of \<open>Mk\<close> are enumerated in order, so \<open>Ak\<close> is the list of
  their areas.
\<close>

definition fit :: "histogram \<Rightarrow> (int \<Rightarrow> int \<Rightarrow> trial) \<Rightarrow> engine \<Rightarrow> real list list \<Rightarrow>
    error + engine" where
  "fit histogram draw e data =
     (let N = length data in
      if K_cfg e - L_cfg e < 0 then Inl ValueError
      else
        (case counts_loop N (L_cfg e) (H_cfg e) draw
                (replicate (nat (K_cfg e - L_cfg e)) (zeros N), zeros N)
                (py_range (L_cfg e) (K_cfg e)) of
           Inl er \<Rightarrow> Inl er
         | Inr s \<Rightarrow>
             (let A = map (cdf_area histogram) (fst s);
                  dK = delta_curve (L_cfg e) (K_cfg e) A
              in Inr (e\<lparr>Mk := Some (Arr3 (fst s)), Ak := Some A, deltaK := Some dK,
                        bestK := Some (best_count (L_cfg e) dK)\<rparr>))))"

section \<open>fit_from_cfg and predict\<close>

text \<open>\<open>fit_from_cfg\<close> (lines 102-139); \<open>draw h\<close> is the trial observed at resampling \<open>h\<close>.\<close>

definition fit_from_cfg :: "(int \<Rightarrow> trial) \<Rightarrow> engine \<Rightarrow> real list list \<Rightarrow> error + engine" where
  "fit_from_cfg draw e data =
     (let N = length data
      in case trials_loop (\<lambda>h. cfg_trial N (draw h)) (zeros N, zeros N)
                (py_range 0 (H_cfg e)) of
           Inl er \<Rightarrow> Inl er
         | Inr s \<Rightarrow> Inr (e\<lparr>X := Some data, Mk := Some (Arr2 (fst (consensus N s)))\<rparr>))"

text \<open>\<open>xs[j]\<close> for a Python integer \<open>j\<close>: a negative index counts from the end.\<close>

definition py_index :: "'a list \<Rightarrow> int \<Rightarrow> error + 'a" where
  "py_index xs j =
     (let n = int (length xs); j' = (if j < 0 then n + j else j)
      in if 0 \<le> j' \<and> j' < n then Inr (xs ! nat j') else Inl IndexError)"

text \<open>
  \<open>predict\<close> (lines 141-147), up to the call of the clustering primitive: the result is
  the number of clusters and the array \<open>1 - self.Mk[self.bestK - self.L_]\<close> handed to
  it. With \<open>bestK\<close> unset, \<open>None - self.L_\<close> raises \<open>TypeError\<close>.
\<close>

definition predict :: "engine \<Rightarrow> error + int \<times> ndarray" where
  "predict e =
     (case Mk e of
        None \<Rightarrow> Inl AssertionError
      | Some arr \<Rightarrow>
          (case bestK e of
             None \<Rightarrow> Inl TypeError
           | Some b \<Rightarrow>
               (case arr of
                  Arr3 ms \<Rightarrow>
                    (case py_index ms (b - L_cfg e) of
                       Inl er \<Rightarrow> Inl er
                     | Inr m \<Rightarrow> Inr (b, Arr2 (map (map (\<lambda>v. 1 - v)) m)))
                | Arr2 m \<Rightarrow>
                    (case py_index m (b - L_cfg e) of
                       Inl er \<Rightarrow> Inl er
                     | Inr row \<Rightarrow> Inr (b, Arr1 (map (\<lambda>v. 1 - v) row)))
                | Arr1 row \<Rightarrow>
                    (case py_index row (b - L_cfg e) of
                       Inl er \<Rightarrow> Inl er
                     | Inr v \<Rightarrow> Inr (b, Arr1 [1 - v])))))"

section \<open>What the library calls guarantee\<close>

text \<open>
  The shape of an \<open>N\<close> by \<open>N\<close> array.
\<close>

definition dims :: "nat \<Rightarrow> matrix \<Rightarrow> bool" where
  "dims N A \<longleftrightarrow> length A = N \<and> list_all (\<lambda>row. length row = N) A"

text \<open>
  \<open>util.resample\<close> draws row indices of the data without replacement: the indices are
  below \<open>N\<close> and pairwise distinct.
\<close>

definition resample_ok :: "nat \<Rightarrow> trial \<Rightarrow> bool" where
  "resample_ok N t \<longleftrightarrow>
     distinct (resampled_indices t) \<and> list_all (\<lambda>a. a < N) (resampled_indices t)"

text \<open>The clustering primitive returns one label per drawn row.\<close>

definition labels_ok :: "trial \<Rightarrow> bool" where
  "labels_ok t \<longleftrightarrow> length (Mh t) = length (resampled_indices t)"

text \<open>
  \<open>np.argsort(Mh)\<close> returns a permutation of the positions of \<open>Mh\<close> along which the
  labels are in ascending order.
\<close>

definition argsort_ok :: "trial \<Rightarrow> bool" where
  "argsort_ok t \<longleftrightarrow>
     distinct (id_clusts t) \<and> length (id_clusts t) = length (Mh t) \<and>
     list_all (\<lambda>j. j < length (Mh t)) (id_clusts t) \<and>
     sorted (map (\<lambda>j. Mh t ! j) (id_clusts t))"

definition trial_ok :: "nat \<Rightarrow> trial \<Rightarrow> bool" where
  "trial_ok N t \<longleftrightarrow> resample_ok N t \<and> labels_ok t \<and> argsort_ok t"

text \<open>
  The rows of the cluster with label \<open>i\<close> in a trial, in the order of \<open>id_clusts\<close>.
\<close>

definition cluster_rows :: "trial \<Rightarrow> int \<Rightarrow> nat list" where
  "cluster_rows t i =
     map (\<lambda>j. resampled_indices t ! j) (filter (\<lambda>j. Mh t ! j = i) (id_clusts t))"

text \<open>
  How many of the clusters with labels in \<open>js\<close> list the pair \<open>(a, b)\<close> among their
  combinations; \<open>co_occur\<close> is 1 when the pair is among the combinations of the drawn
  rows.
\<close>

definition hits :: "trial \<Rightarrow> int list \<Rightarrow> nat \<Rightarrow> nat \<Rightarrow> nat" where
  "hits t js a b = length (filter (\<lambda>i. (a, b) \<in> set (combinations2 (cluster_rows t i))) js)"

definition co_occur :: "trial \<Rightarrow> nat \<Rightarrow> nat \<Rightarrow> real" where
  "co_occur t a b = (if (a, b) \<in> set (combinations2 (resampled_indices t)) then 1 else 0)"

text \<open>
  The invariant of the accumulator and the counter between trials: both have the shape
  \<open>N\<close> by \<open>N\<close>, the accumulator is non-negative with a zero diagonal, and a pair of
  rows was never counted as clustered together more often than as drawn together.
\<close>

definition acc_inv :: "nat \<Rightarrow> matrix \<times> matrix \<Rightarrow> bool" where
  "acc_inv N s \<longleftrightarrow>
     dims N (fst s) \<and> dims N (snd s) \<and>
     (\<forall>a<N. \<forall>b<N. 0 \<le> fst s ! a ! b \<and>
        fst s ! a ! b + fst s ! b ! a \<le> snd s ! a ! b + snd s ! b ! a) \<and>
     (\<forall>a<N. fst s ! a ! a = 0)"

text \<open>
  The consensus matrix of one candidate count \<open>k\<close> on its own: \<open>H\<close> trials \<open>d h\<close> from a
  zero accumulator and a zero counter, then lines 81-85.
\<close>

definition single_count :: "nat \<Rightarrow> int \<Rightarrow> int \<Rightarrow> (int \<Rightarrow> trial) \<Rightarrow> error + matrix" where
  "single_count N H k d =
     (case trials_loop (\<lambda>h. fit_trial N k (d h)) (zeros N, zeros N) (py_range 0 H) of
        Inl e \<Rightarrow> Inl e
      | Inr s \<Rightarrow> Inr (fst (consensus N s)))"

text \<open>
  A small run: three rows, all drawn in every trial in the order 2, 0, 1, with labels
  1, 0, 1; candidate counts 2, 3 and 4, two resamplings each.
\<close>

definition example_trial :: trial where
  "example_trial = \<lparr>resampled_indices = [2, 0, 1], Mh = [1, 0, 1], id_clusts = [1, 0, 2]\<rparr>"

definition example_engine :: engine where
  "example_engine = \<lparr>L_cfg = 2, K_cfg = 5, H_cfg = 2, resample_proportion_cfg = 99 / 100,
      Mk = None, Ak = None, deltaK = None, bestK = None, X = None\<rparr>"

definition example_data :: "real list list" where
  "example_data = [[0, 0], [0, 1], [5, 5]]"

text \<open>
  What \<open>np.histogram\<close> returns on the nine entries of the consensus matrix of the
  example, four of them 0 and five of them 1 or just below: ten bins of width 1/10
  between 0 and 1, with the densities 4 / (9 * (1/10)) and 5 / (9 * (1/10)) in the first
  and the last.
\<close>

definition example_histogram :: histogram where
  "example_histogram a =
     ([40 / 9, 0, 0, 0, 0, 0, 0, 0, 0, 50 / 9],
      [0, 1 / 10, 2 / 10, 3 / 10, 4 / 10, 5 / 10, 6 / 10, 7 / 10, 8 / 10, 9 / 10, 1])"

definition example_consensus :: matrix where
  "example_consensus =
     [[1, 0, 0], [0, 1, 200000000 / 200000001], [0, 200000000 / 200000001, 1]]"

definition example_fitted :: engine where
  "example_fitted = \<lparr>L_cfg = 2, K_cfg = 5, H_cfg = 2, resample_proportion_cfg = 99 / 100,
      Mk = Some (Arr3 [example_consensus, example_consensus, example_consensus]),
      Ak = Some [5, 5, 5], deltaK = Some [5, 0], bestK = Some 2, X = None\<rparr>"

text \<open>
  From the accumulator \<open>M\<close> to \<open>M'\<close> the unordered pair of the rows \<open>a\<close> and \<open>b\<close> was
  counted once: one of its two cells rose by 1, the other did not change.
\<close>

definition counted_once :: "matrix \<Rightarrow> matrix \<Rightarrow> nat \<Rightarrow> nat \<Rightarrow> bool" where
  "counted_once M M' a b \<longleftrightarrow>
     (M' ! a ! b = M ! a ! b + 1 \<and> M' ! b ! a = M ! b ! a) \<or>
     (M' ! a ! b = M ! a ! b \<and> M' ! b ! a = M ! b ! a + 1)"

text \<open>A trial whose labels 0, 7, 7 are not the labels 0 and 1.\<close>

definition skipping_trial :: trial where
  "skipping_trial = \<lparr>resampled_indices = [0, 1, 2], Mh = [0, 7, 7], id_clusts = [0, 1, 2]\<rparr>"


section \<open>Ranges, the delta curve and the best count\<close>

lemma py_range_length: "length (py_range a b) = nat (b - a)"
  by (simp add: py_range_def)

lemma py_range_nth: "i < nat (b - a) \<Longrightarrow> py_range a b ! i = a + int i"
  by (simp add: py_range_def)

lemma py_range_set: "set (py_range a b) = {k. a \<le> k \<and> k < b}"
  by (auto simp: py_range_def)

lemma py_range_distinct: "distinct (py_range a b)"
  by (simp add: py_range_def)

lemma argmax_from_spec:
  assumes "best < length pre" "v = pre ! best"
    "\<forall>i<length pre. pre ! i \<le> v" "\<forall>i<best. pre ! i < v"
  shows "argmax_from best v (length pre) xs < length (pre @ xs) \<and>
         (\<forall>i<length (pre @ xs). (pre @ xs) ! i \<le> (pre @ xs) ! argmax_from best v (length pre) xs) \<and>
         (\<forall>i<argmax_from best v (length pre) xs.
             (pre @ xs) ! i < (pre @ xs) ! argmax_from best v (length pre) xs)"
  using assms
proof (induction xs arbitrary: best v pre)
  case Nil
  then show ?case by auto
next
  case (Cons x xs)
  let ?pre = "pre @ [x]"
  have app: "?pre @ xs = pre @ x # xs" by simp
  have len: "length ?pre = length pre + 1" by simp
  show ?case
  proof (cases "v < x")
    case True
    have 1: "length pre < length ?pre" by simp
    have 2: "x = ?pre ! length pre" by simp
    have 3: "\<forall>i<length ?pre. ?pre ! i \<le> x"
      using Cons.prems(3) True by (auto simp: nth_append less_Suc_eq)
    have 4: "\<forall>i<length pre. ?pre ! i < x"
      using Cons.prems(3) True by (auto simp: nth_append)
    from Cons.IH[OF 1 2 3 4] show ?thesis
      using True unfolding app len by simp
  next
    case False
    have 1: "best < length ?pre" using Cons.prems(1) by simp
    have 2: "v = ?pre ! best" using Cons.prems(1,2) by (simp add: nth_append)
    have 3: "\<forall>i<length ?pre. ?pre ! i \<le> v"
      using Cons.prems(3) False by (auto simp: nth_append less_Suc_eq)
    have 4: "\<forall>i<best. ?pre ! i < v"
      using Cons.prems(1,4) by (auto simp: nth_append)
    from Cons.IH[OF 1 2 3 4] show ?thesis
      using False unfolding app len by simp
  qed
qed

lemma argmax_spec:
  assumes "xs \<noteq> []"
  shows "argmax xs < length xs \<and> (\<forall>i<length xs. xs ! i \<le> xs ! argmax xs) \<and>
         (\<forall>i<argmax xs. xs ! i < xs ! argmax xs)"
proof -
  obtain y ys where xs: "xs = y # ys" using assms by (cases xs) auto
  show ?thesis
    using argmax_from_spec[of 0 "[y]" y ys] by (simp add: argmax_def xs)
qed

lemma delta_curve_length:
  "length A = nat (K - L) \<Longrightarrow> length (delta_curve L K A) = nat (K - L) - 1"
  by (auto simp: delta_curve_def py_range_length)

lemma delta_curve_nth:
  assumes "length A = nat (K - L)" "i < nat (K - L) - 1"
  shows "delta_curve L K A ! i =
     (if L + int i > 2 then (A ! (i + 1) - A ! i) / A ! i else A ! i)"
proof -
  have "i < length (tl A)" "i < length (butlast A)" "i < length (py_range L (K - 1))"
    using assms by (auto simp: py_range_length)
  moreover have "i < nat (K - 1 - L)" using assms by auto
  ultimately show ?thesis
    using assms unfolding delta_curve_def
    by (simp add: nth_tl nth_butlast py_range_nth)
qed


lemma counts_loop_length:
  "counts_loop N L H draw s ks = Inr s' \<Longrightarrow> length (fst s') = length (fst s)"
proof (induction ks arbitrary: s)
  case Nil
  then show ?case by simp
next
  case (Cons k ks)
  then show ?case
    by (auto simp: Let_def split: sum.splits)
qed

lemma fit_Inr:
  assumes "fit histogram draw e data = Inr e'"
  shows "L_cfg e \<le> K_cfg e \<and>
    (\<exists>s. counts_loop (length data) (L_cfg e) (H_cfg e) draw
            (replicate (nat (K_cfg e - L_cfg e)) (zeros (length data)), zeros (length data))
            (py_range (L_cfg e) (K_cfg e)) = Inr s \<and>
         length (fst s) = nat (K_cfg e - L_cfg e) \<and>
         e' = e\<lparr>Mk := Some (Arr3 (fst s)), Ak := Some (map (cdf_area histogram) (fst s)),
                deltaK := Some (delta_curve (L_cfg e) (K_cfg e) (map (cdf_area histogram) (fst s))),
                bestK := Some (best_count (L_cfg e)
                   (delta_curve (L_cfg e) (K_cfg e) (map (cdf_area histogram) (fst s))))\<rparr>)"
  using assms counts_loop_length[of "length data" "L_cfg e" "H_cfg e" draw]
  by (fastforce simp: fit_def Let_def split: if_splits sum.splits)

section \<open>Arrays, pairs and bisection\<close>

lemma length_mat: "length (mat N f) = N"
  by (simp add: mat_def)

lemma mat_nth: "r < N \<Longrightarrow> c < N \<Longrightarrow> mat N f ! r ! c = f r c"
  by (simp add: mat_def)

lemma dims_mat: "dims N (mat N f)"
  by (simp add: dims_def mat_def list_all_iff)

lemma dims_zeros: "dims N (zeros N)"
  by (simp add: zeros_def dims_mat)

lemma zeros_nth: "r < N \<Longrightarrow> c < N \<Longrightarrow> zeros N ! r ! c = 0"
  by (simp add: zeros_def mat_nth)

lemma combinations2_mem:
  "(a, b) \<in> set (combinations2 xs) \<Longrightarrow> a \<in> set xs \<and> b \<in> set xs"
  by (induction xs) auto

lemma combinations2_distinct:
  "distinct xs \<Longrightarrow> (a, b) \<in> set (combinations2 xs) \<Longrightarrow>
     a \<noteq> b \<and> (b, a) \<notin> set (combinations2 xs)"
  by (induction xs) (auto dest: combinations2_mem)

lemma combinations2_total:
  "a \<in> set xs \<Longrightarrow> b \<in> set xs \<Longrightarrow> a \<noteq> b \<Longrightarrow>
     (a, b) \<in> set (combinations2 xs) \<or> (b, a) \<in> set (combinations2 xs)"
  by (induction xs) auto

lemma combinations2_Nil_iff: "combinations2 xs = [] \<longleftrightarrow> length xs < 2"
proof (cases xs)
  case Nil
  then show ?thesis by simp
next
  case (Cons x ys)
  then show ?thesis by (cases ys) auto
qed

lemma sorted_nth_less_iff:
  "sorted a \<Longrightarrow> m < length a \<Longrightarrow>
     (a ! m < x) = (m < length (filter (\<lambda>v. v < x) a))"
  for a :: "int list"
proof (induction a arbitrary: m)
  case Nil
  then show ?case by simp
next
  case (Cons y ys)
  show ?case
  proof (cases "y < x")
    case True
    with Cons show ?thesis by (cases m) auto
  next
    case False
    with Cons.prems have "\<forall>v\<in>set (y # ys). \<not> v < x" by auto
    then have "filter (\<lambda>v. v < x) (y # ys) = []" "\<not> (y # ys) ! m < x"
      using nth_mem[OF Cons.prems(2)] by (simp_all only: filter_empty_conv) blast+
    then show ?thesis by simp
  qed
qed

lemma sorted_nth_le_iff:
  "sorted a \<Longrightarrow> m < length a \<Longrightarrow>
     (x < a ! m) = (length (filter (\<lambda>v. v \<le> x) a) \<le> m)"
  for a :: "int list"
proof (induction a arbitrary: m)
  case Nil
  then show ?case by simp
next
  case (Cons y ys)
  show ?case
  proof (cases "y \<le> x")
    case True
    with Cons show ?thesis by (cases m) auto
  next
    case False
    with Cons.prems have "\<forall>v\<in>set (y # ys). \<not> v \<le> x" by auto
    then have "filter (\<lambda>v. v \<le> x) (y # ys) = []" "\<not> (y # ys) ! m \<le> x"
      using nth_mem[OF Cons.prems(2)] by (simp_all only: filter_empty_conv) blast+
    then show ?thesis by simp
  qed
qed

lemma bisect_left_loop_sorted:
  assumes "sorted a" "hi \<le> length a" "lo \<le> length (filter (\<lambda>v. v < x) a)"
    "length (filter (\<lambda>v. v < x) a) \<le> hi"
  shows "bisect_left_loop a x lo hi = length (filter (\<lambda>v. v < x) a)"
  using assms
proof (induction a x lo hi rule: bisect_left_loop.induct)
  case (1 a x lo hi)
  show ?case
  proof (cases "lo < hi")
    case False
    with "1.prems" show ?thesis by simp
  next
    case True
    define mid where "mid = (lo + hi) div 2"
    have mid: "lo \<le> mid" "mid < hi" "mid < length a"
      using True "1.prems"(2) by (auto simp: mid_def)
    show ?thesis
    proof (cases "a ! mid < x")
      case lt: True
      then have "mid + 1 \<le> length (filter (\<lambda>v. v < x) a)"
        using sorted_nth_less_iff[OF "1.prems"(1) mid(3), of x] by simp
      then have "bisect_left_loop a x (mid + 1) hi = length (filter (\<lambda>v. v < x) a)"
        using "1.IH"(1)[OF True mid_def lt "1.prems"(1,2)] "1.prems"(4) by simp
      then show ?thesis
        using True lt by (subst bisect_left_loop.simps) (simp add: mid_def Let_def)
    next
      case ge: False
      then have "length (filter (\<lambda>v. v < x) a) \<le> mid"
        using sorted_nth_less_iff[OF "1.prems"(1) mid(3), of x] by simp
      moreover have "mid \<le> length a" using mid by simp
      ultimately have "bisect_left_loop a x lo mid = length (filter (\<lambda>v. v < x) a)"
        using "1.IH"(2)[OF True mid_def ge "1.prems"(1)] "1.prems"(3) by simp
      then show ?thesis
        using True ge by (subst bisect_left_loop.simps) (simp add: mid_def Let_def)
    qed
  qed
qed

lemma bisect_right_loop_sorted:
  assumes "sorted a" "hi \<le> length a" "lo \<le> length (filter (\<lambda>v. v \<le> x) a)"
    "length (filter (\<lambda>v. v \<le> x) a) \<le> hi"
  shows "bisect_right_loop a x lo hi = length (filter (\<lambda>v. v \<le> x) a)"
  using assms
proof (induction a x lo hi rule: bisect_right_loop.induct)
  case (1 a x lo hi)
  show ?case
  proof (cases "lo < hi")
    case False
    with "1.prems" show ?thesis by simp
  next
    case True
    define mid where "mid = (lo + hi) div 2"
    have mid: "lo \<le> mid" "mid < hi" "mid < length a"
      using True "1.prems"(2) by (auto simp: mid_def)
    show ?thesis
    proof (cases "x < a ! mid")
      case lt: True
      then have "length (filter (\<lambda>v. v \<le> x) a) \<le> mid"
        using sorted_nth_le_iff[OF "1.prems"(1) mid(3), of x] by simp
      moreover have "mid \<le> length a" using mid by simp
      ultimately have "bisect_right_loop a x lo mid = length (filter (\<lambda>v. v \<le> x) a)"
        using "1.IH"(1)[OF True mid_def lt "1.prems"(1)] "1.prems"(3) by simp
      then show ?thesis
        using True lt by (subst bisect_right_loop.simps) (simp add: mid_def Let_def)
    next
      case ge: False
      then have "mid + 1 \<le> length (filter (\<lambda>v. v \<le> x) a)"
        using sorted_nth_le_iff[OF "1.prems"(1) mid(3), of x] by simp
      then have "bisect_right_loop a x (mid + 1) hi = length (filter (\<lambda>v. v \<le> x) a)"
        using "1.IH"(2)[OF True mid_def ge "1.prems"(1,2)] "1.prems"(4) by simp
      then show ?thesis
        using True ge by (subst bisect_right_loop.simps) (simp add: mid_def Let_def)
    qed
  qed
qed

lemma bisect_left_sorted:
  "sorted a \<Longrightarrow> bisect_left a x = length (filter (\<lambda>v. v < x) a)"
  unfolding bisect_left_def by (rule bisect_left_loop_sorted) auto

lemma bisect_right_sorted:
  "sorted a \<Longrightarrow> bisect_right a x = length (filter (\<lambda>v. v \<le> x) a)"
  unfolding bisect_right_def by (rule bisect_right_loop_sorted) auto

lemma sorted_three_parts:
  "sorted (map f ids) \<Longrightarrow>
     ids = filter (\<lambda>j. f j < x) ids @ filter (\<lambda>j. f j = x) ids @ filter (\<lambda>j. x < f j) ids"
  for f :: "'a \<Rightarrow> int"
proof (induction ids)
  case Nil
  then show ?case by simp
next
  case (Cons j ids)
  then have IH: "ids = filter (\<lambda>j. f j < x) ids @ filter (\<lambda>j. f j = x) ids @ filter (\<lambda>j. x < f j) ids"
    and le: "\<forall>i\<in>set ids. f j \<le> f i" by auto
  consider "f j < x" | "f j = x" | "x < f j" by linarith
  then show ?case
  proof cases
    case 1
    then show ?thesis using IH by simp
  next
    case 2
    then have "filter (\<lambda>j. f j < x) ids = []" using le by (auto simp: filter_empty_conv)
    then show ?thesis using 2 IH by simp
  next
    case 3
    then have "filter (\<lambda>j. f j < x) ids = []" "filter (\<lambda>j. f j = x) ids = []"
      using le by (auto simp: filter_empty_conv)
    then show ?thesis using 3 IH by simp
  qed
qed

lemma slice_cluster:
  assumes "sorted (map f ids)"
  shows "slice ids (bisect_left (map f ids) x) (bisect_right (map f ids) x) =
         filter (\<lambda>j. f j = x) ids"
proof -
  let ?A = "filter (\<lambda>j. f j < x) ids" and ?B = "filter (\<lambda>j. f j = x) ids"
    and ?C = "filter (\<lambda>j. x < f j) ids"
  have parts: "ids = ?A @ ?B @ ?C" by (rule sorted_three_parts[OF assms])
  have l: "bisect_left (map f ids) x = length ?A"
    by (simp add: bisect_left_sorted[OF assms] filter_map o_def)
  have "length (filter (\<lambda>j. f j \<le> x) ids) = length ?A + length ?B"
    by (induction ids) auto
  then have r: "bisect_right (map f ids) x = length ?A + length ?B"
    by (simp add: bisect_right_sorted[OF assms] filter_map o_def)
  have "slice (?A @ ?B @ ?C) (length ?A) (length ?A + length ?B) = ?B"
    by (simp add: slice_def)
  then show ?thesis using parts l r by metis
qed

section \<open>One trial\<close>

lemma dims_nth: "dims N A \<Longrightarrow> r < N \<Longrightarrow> length (A ! r) = N"
  by (auto simp: dims_def list_all_length)

lemma fancy_ok: "list_all (\<lambda>j. j < length xs) js \<Longrightarrow> fancy xs js = Inr (map (\<lambda>j. xs ! j) js)"
  by (simp add: fancy_def)

lemma fancy_error: "fancy xs js = Inl e \<Longrightarrow> e = IndexError"
  by (auto simp: fancy_def split: if_splits)

lemma add_at_ok:
  "list_all (\<lambda>p. fst p < N \<and> snd p < N) ps \<Longrightarrow>
     add_at N A ps = Inr (mat N (\<lambda>r c. A ! r ! c + (if (r, c) \<in> set ps then 1 else 0)))"
  by (simp add: add_at_def)

lemma add_at_error: "add_at N A ps = Inl e \<Longrightarrow> e = IndexError"
  by (auto simp: add_at_def split: if_splits)

lemma count_pairs_error: "count_pairs N Is rows = Inl e \<Longrightarrow> e = IndexError"
  by (auto simp: count_pairs_def Let_def add_at_def split: if_splits)

lemma count_pairs_degenerate: "length rows < 2 \<Longrightarrow> count_pairs N Is rows = Inl IndexError"
  by (simp add: count_pairs_def combinations2_Nil_iff)

lemma combinations2_in_range:
  "list_all (\<lambda>a. a < N) xs \<Longrightarrow> list_all (\<lambda>p. fst p < N \<and> snd p < N) (combinations2 xs)"
  by (auto simp: list_all_iff dest: combinations2_mem)

lemma count_pairs_ok:
  assumes "resample_ok N t" "2 \<le> length (resampled_indices t)"
  shows "count_pairs N Is (resampled_indices t) =
     Inr (mat N (\<lambda>r c. Is ! r ! c +
        (if (r, c) \<in> set (combinations2 (resampled_indices t)) then 1 else 0)))"
proof -
  have "combinations2 (resampled_indices t) \<noteq> []"
    using assms(2) by (simp add: combinations2_Nil_iff)
  moreover have "list_all (\<lambda>p. fst p < N \<and> snd p < N) (combinations2 (resampled_indices t))"
    using assms(1) by (simp add: resample_ok_def combinations2_in_range)
  ultimately show ?thesis by (simp add: count_pairs_def add_at_ok)
qed

lemma trial_sorted_Mh:
  "trial_ok N t \<Longrightarrow> fancy (Mh t) (id_clusts t) = Inr (map (\<lambda>j. Mh t ! j) (id_clusts t))"
  by (simp add: trial_ok_def argsort_ok_def fancy_ok)

lemma trial_positions:
  "trial_ok N t \<Longrightarrow> list_all (\<lambda>j. j < length (resampled_indices t)) (id_clusts t)"
  by (auto simp: trial_ok_def argsort_ok_def labels_ok_def)

lemma trial_cluster_rows:
  assumes "trial_ok N t"
  shows "fancy (resampled_indices t)
           (slice (id_clusts t) (bisect_left (map (\<lambda>j. Mh t ! j) (id_clusts t)) i)
              (bisect_right (map (\<lambda>j. Mh t ! j) (id_clusts t)) i)) =
         Inr (cluster_rows t i)"
proof -
  have s: "sorted (map (\<lambda>j. Mh t ! j) (id_clusts t))"
    using assms by (simp add: trial_ok_def argsort_ok_def)
  have "list_all (\<lambda>j. j < length (resampled_indices t)) (id_clusts t)"
    using assms by (rule trial_positions)
  then have "list_all (\<lambda>j. j < length (resampled_indices t))
      (filter (\<lambda>j. Mh t ! j = i) (id_clusts t))"
    by (simp add: list_all_iff)
  then show ?thesis
    unfolding slice_cluster[OF s] cluster_rows_def by (rule fancy_ok)
qed

lemma cluster_rows_subset:
  assumes "trial_ok N t"
  shows "set (cluster_rows t i) \<subseteq> set (resampled_indices t)"
proof -
  have "list_all (\<lambda>j. j < length (resampled_indices t)) (id_clusts t)"
    using assms by (rule trial_positions)
  then show ?thesis
    by (auto simp: cluster_rows_def list_all_iff)
qed

lemma cluster_rows_distinct:
  assumes "trial_ok N t"
  shows "distinct (cluster_rows t i)"
proof -
  have lt: "list_all (\<lambda>j. j < length (resampled_indices t)) (id_clusts t)"
    using assms by (rule trial_positions)
  have d: "distinct (id_clusts t)" "distinct (resampled_indices t)"
    using assms by (simp_all add: trial_ok_def argsort_ok_def resample_ok_def)
  have "inj_on (\<lambda>j. resampled_indices t ! j) (set (filter (\<lambda>j. Mh t ! j = i) (id_clusts t)))"
    using lt d(2) by (auto simp: inj_on_def list_all_iff nth_eq_iff_index_eq)
  then show ?thesis
    unfolding cluster_rows_def using d(1) by (simp add: distinct_map)
qed

lemma cluster_rows_disjoint:
  assumes "trial_ok N t" "a \<in> set (cluster_rows t i)" "a \<in> set (cluster_rows t i')"
  shows "i = i'"
proof -
  have lt: "list_all (\<lambda>j. j < length (resampled_indices t)) (id_clusts t)"
    using assms(1) by (rule trial_positions)
  have d: "distinct (resampled_indices t)"
    using assms(1) by (simp add: trial_ok_def resample_ok_def)
  from assms(2) obtain j where j: "j \<in> set (id_clusts t)" "Mh t ! j = i"
    "a = resampled_indices t ! j" by (auto simp: cluster_rows_def)
  from assms(3) obtain j' where j': "j' \<in> set (id_clusts t)" "Mh t ! j' = i'"
    "a = resampled_indices t ! j'" by (auto simp: cluster_rows_def)
  have "j = j'"
    using j j' lt d by (auto simp: list_all_iff nth_eq_iff_index_eq)
  then show ?thesis using j j' by simp
qed

lemma cluster_rows_in_range:
  assumes "trial_ok N t"
  shows "list_all (\<lambda>a. a < N) (cluster_rows t i)"
  using cluster_rows_subset[OF assms, of i] assms
  by (auto simp: list_all_iff trial_ok_def resample_ok_def)

lemma clusters_loop_ok:
  assumes "trial_ok N t" "dims N M"
  shows "\<exists>M'. clusters_loop N t (map (\<lambda>j. Mh t ! j) (id_clusts t)) M js = Inr M' \<and>
     dims N M' \<and>
     (\<forall>a<N. \<forall>b<N. M' ! a ! b = M ! a ! b + real (hits t js a b))"
  using assms(2)
proof (induction js arbitrary: M)
  case Nil
  then show ?case by (simp add: hits_def)
next
  case (Cons i js)
  let ?ps = "combinations2 (cluster_rows t i)"
  let ?M1 = "mat N (\<lambda>r c. M ! r ! c + (if (r, c) \<in> set ?ps then 1 else 0))"
  have ok: "add_at N M ?ps = Inr ?M1"
    by (rule add_at_ok) (rule combinations2_in_range[OF cluster_rows_in_range[OF assms(1)]])
  show ?case
  proof (cases "?ps = []")
    case True
    from Cons.IH[OF Cons.prems] obtain M' where
      "clusters_loop N t (map (\<lambda>j. Mh t ! j) (id_clusts t)) M js = Inr M'" "dims N M'"
      "\<forall>a<N. \<forall>b<N. M' ! a ! b = M ! a ! b + real (hits t js a b)" by blast
    then show ?thesis
      using True by (simp add: trial_cluster_rows[OF assms(1)] hits_def)
  next
    case False
    from Cons.IH[OF dims_mat, of "\<lambda>r c. M ! r ! c + (if (r, c) \<in> set ?ps then 1 else 0)"]
    obtain M' where M':
      "clusters_loop N t (map (\<lambda>j. Mh t ! j) (id_clusts t)) ?M1 js = Inr M'" "dims N M'"
      "\<forall>a<N. \<forall>b<N. M' ! a ! b = ?M1 ! a ! b + real (hits t js a b)" by blast
    have "\<forall>a<N. \<forall>b<N. M' ! a ! b = M ! a ! b + real (hits t (i # js) a b)"
      using M'(3) by (auto simp: mat_nth hits_def)
    then show ?thesis
      using False M'(1,2) ok by (simp add: trial_cluster_rows[OF assms(1)])
  qed
qed

lemma clusters_loop_error:
  "clusters_loop N t srt M js = Inl e \<Longrightarrow> e = IndexError"
proof (induction js arbitrary: M)
  case Nil
  then show ?case by simp
next
  case (Cons i js)
  then show ?case
    by (auto simp: Let_def split: sum.splits if_splits dest: fancy_error add_at_error)
qed

section \<open>The accumulator invariant\<close>

lemma filter_at_most_one:
  "distinct js \<Longrightarrow> (\<forall>x\<in>set js. \<forall>y\<in>set js. P x \<longrightarrow> P y \<longrightarrow> x = y) \<Longrightarrow>
     length (filter P js) \<le> 1"
proof (induction js)
  case Nil
  then show ?case by simp
next
  case (Cons x js)
  show ?case
  proof (cases "P x")
    case True
    with Cons.prems have "\<forall>y\<in>set js. \<not> P y" by auto
    then have "filter P js = []" by (simp add: filter_empty_conv)
    with True show ?thesis by simp
  next
    case False
    with Cons show ?thesis by auto
  qed
qed

lemma hits_le_one:
  assumes "trial_ok N t" "distinct js"
  shows "hits t js a b \<le> 1"
  unfolding hits_def
proof (rule filter_at_most_one[OF assms(2)], intro ballI impI)
  fix x y
  assume "(a, b) \<in> set (combinations2 (cluster_rows t x))"
    "(a, b) \<in> set (combinations2 (cluster_rows t y))"
  then have "a \<in> set (cluster_rows t x)" "a \<in> set (cluster_rows t y)"
    by (auto dest: combinations2_mem)
  then show "x = y" by (rule cluster_rows_disjoint[OF assms(1)])
qed

lemma hits_one:
  assumes "trial_ok N t" "distinct js" "i \<in> set js"
    "(a, b) \<in> set (combinations2 (cluster_rows t i))"
  shows "hits t js a b = 1"
proof -
  have "i \<in> set (filter (\<lambda>i. (a, b) \<in> set (combinations2 (cluster_rows t i))) js)"
    using assms(3,4) by simp
  then have "0 < hits t js a b"
    unfolding hits_def by (metis length_pos_if_in_set)
  with hits_le_one[OF assms(1,2), of a b] show ?thesis by simp
qed

lemma hits_reverse_zero:
  assumes "trial_ok N t" "(a, b) \<in> set (combinations2 (cluster_rows t i))"
  shows "hits t js b a = 0"
proof -
  have "(b, a) \<notin> set (combinations2 (cluster_rows t i'))" for i'
  proof
    assume h: "(b, a) \<in> set (combinations2 (cluster_rows t i'))"
    have "a \<in> set (cluster_rows t i)" "a \<in> set (cluster_rows t i')"
      using assms(2) h by (auto dest: combinations2_mem)
    then have "i = i'" by (rule cluster_rows_disjoint[OF assms(1)])
    then show False
      using combinations2_distinct[OF cluster_rows_distinct[OF assms(1)] assms(2)] h by simp
  qed
  then show ?thesis by (simp add: hits_def)
qed

lemma hits_pos:
  assumes "0 < hits t js a b"
  shows "\<exists>i\<in>set js. (a, b) \<in> set (combinations2 (cluster_rows t i))"
proof -
  have "filter (\<lambda>i. (a, b) \<in> set (combinations2 (cluster_rows t i))) js \<noteq> []"
    using assms by (auto simp: hits_def)
  then show ?thesis by (auto simp: filter_empty_conv)
qed

lemma hits_diag:
  assumes "trial_ok N t"
  shows "hits t js a a = 0"
proof (rule ccontr)
  assume "hits t js a a \<noteq> 0"
  then obtain i where "(a, a) \<in> set (combinations2 (cluster_rows t i))"
    using hits_pos[of t js a a] by auto
  then show False
    using combinations2_distinct[OF cluster_rows_distinct[OF assms]] by blast
qed

lemma co_occur_pair:
  assumes "trial_ok N t" "(a, b) \<in> set (combinations2 (cluster_rows t i))"
  shows "co_occur t a b + co_occur t b a = 1"
proof -
  have d: "distinct (resampled_indices t)"
    using assms(1) by (simp add: trial_ok_def resample_ok_def)
  have ne: "a \<noteq> b"
    using combinations2_distinct[OF cluster_rows_distinct[OF assms(1)] assms(2)] by simp
  have "a \<in> set (resampled_indices t)" "b \<in> set (resampled_indices t)"
    using combinations2_mem[OF assms(2)] cluster_rows_subset[OF assms(1), of i] by auto
  then have "(a, b) \<in> set (combinations2 (resampled_indices t)) \<or>
      (b, a) \<in> set (combinations2 (resampled_indices t))"
    using ne by (rule combinations2_total)
  then show ?thesis
    using combinations2_distinct[OF d] by (auto simp: co_occur_def)
qed

lemma co_occur_nonneg: "0 \<le> co_occur t a b"
  by (simp add: co_occur_def)

lemma hits_sum_le:
  assumes "trial_ok N t" "distinct js"
  shows "real (hits t js a b) + real (hits t js b a) \<le> co_occur t a b + co_occur t b a"
proof (cases "0 < hits t js a b")
  case True
  then obtain i where i: "i \<in> set js" "(a, b) \<in> set (combinations2 (cluster_rows t i))"
    using hits_pos by blast
  show ?thesis
    using hits_one[OF assms i] hits_reverse_zero[OF assms(1) i(2), of js]
      co_occur_pair[OF assms(1) i(2)] by simp
next
  case False
  note ab = this
  show ?thesis
  proof (cases "0 < hits t js b a")
    case True
    then obtain i where i: "i \<in> set js" "(b, a) \<in> set (combinations2 (cluster_rows t i))"
      using hits_pos by blast
    show ?thesis
      using hits_one[OF assms i] hits_reverse_zero[OF assms(1) i(2), of js]
        co_occur_pair[OF assms(1) i(2)] by simp
  next
    case False
    with ab show ?thesis
      using co_occur_nonneg[of t a b] co_occur_nonneg[of t b a] by simp
  qed
qed

lemma fit_trial_error: "fit_trial N k t s = Inl e \<Longrightarrow> e = IndexError"
  by (auto simp: fit_trial_def split: sum.splits
      dest: fancy_error clusters_loop_error count_pairs_error)

lemma cfg_trial_error: "cfg_trial N t s = Inl e \<Longrightarrow> e = IndexError"
  by (auto simp: cfg_trial_def Let_def split: sum.splits
      dest: fancy_error clusters_loop_error count_pairs_error)

lemma fit_trial_degenerate:
  assumes "length (resampled_indices t) < 2"
  shows "fit_trial N k t s = Inl IndexError"
proof (cases "fit_trial N k t s")
  case (Inl e)
  then show ?thesis using fit_trial_error by blast
next
  case (Inr s')
  then show ?thesis
    using count_pairs_degenerate[OF assms, of N "snd s"]
    by (auto simp: fit_trial_def split: sum.splits)
qed

lemma cfg_trial_degenerate:
  assumes "length (resampled_indices t) < 2"
  shows "cfg_trial N t s = Inl IndexError"
proof (cases "cfg_trial N t s")
  case (Inl e)
  then show ?thesis using cfg_trial_error by blast
next
  case (Inr s')
  then show ?thesis
    using count_pairs_degenerate[OF assms, of N "snd s"]
    by (auto simp: cfg_trial_def Let_def split: sum.splits)
qed

lemma fit_trial_ok:
  assumes "trial_ok N t" "2 \<le> length (resampled_indices t)" "dims N (fst s)"
  shows "\<exists>s'. fit_trial N k t s = Inr s' \<and> dims N (fst s') \<and> dims N (snd s') \<and>
     (\<forall>a<N. \<forall>b<N. fst s' ! a ! b = fst s ! a ! b + real (hits t (py_range 0 k) a b) \<and>
        snd s' ! a ! b = snd s ! a ! b + co_occur t a b)"
proof -
  from clusters_loop_ok[OF assms(1,3), of "py_range 0 k"] obtain M' where M':
    "clusters_loop N t (map (\<lambda>j. Mh t ! j) (id_clusts t)) (fst s) (py_range 0 k) = Inr M'"
    "dims N M'"
    "\<forall>a<N. \<forall>b<N. M' ! a ! b = fst s ! a ! b + real (hits t (py_range 0 k) a b)"
    by blast
  have r: "resample_ok N t" using assms(1) by (simp add: trial_ok_def)
  show ?thesis
    using M' by (simp add: fit_trial_def trial_sorted_Mh[OF assms(1)]
        count_pairs_ok[OF r assms(2)] dims_mat mat_nth co_occur_def)
qed

lemma cfg_trial_ok:
  assumes "trial_ok N t" "2 \<le> length (resampled_indices t)" "dims N (fst s)"
  shows "\<exists>s'. cfg_trial N t s = Inr s' \<and> dims N (fst s') \<and> dims N (snd s') \<and>
     (\<forall>a<N. \<forall>b<N. fst s' ! a ! b = fst s ! a ! b +
          real (hits t (py_range 0 (int (card (set (Mh t))))) a b) \<and>
        snd s' ! a ! b = snd s ! a ! b + co_occur t a b)"
proof -
  have "distinct (id_clusts t)" "length (id_clusts t) = length (Mh t)"
    "set (id_clusts t) \<subseteq> {..<length (Mh t)}"
    using assms(1) by (auto simp: trial_ok_def argsort_ok_def list_all_iff)
  then have "set (id_clusts t) = {..<length (Mh t)}"
    by (metis card_lessThan card_subset_eq distinct_card finite_lessThan)
  moreover have "set (Mh t) = (\<lambda>j. Mh t ! j) ` {..<length (Mh t)}"
    by (auto simp: set_conv_nth)
  ultimately have "set (map (\<lambda>j. Mh t ! j) (id_clusts t)) = set (Mh t)"
    by simp
  then have k: "length (remdups (map (\<lambda>j. Mh t ! j) (id_clusts t))) = card (set (Mh t))"
    by (metis length_remdups_card_conv)
  from clusters_loop_ok[OF assms(1,3), of "py_range 0 (int (card (set (Mh t))))"] obtain M' where M':
    "clusters_loop N t (map (\<lambda>j. Mh t ! j) (id_clusts t)) (fst s)
        (py_range 0 (int (card (set (Mh t))))) = Inr M'"
    "dims N M'"
    "\<forall>a<N. \<forall>b<N. M' ! a ! b = fst s ! a ! b +
        real (hits t (py_range 0 (int (card (set (Mh t))))) a b)"
    by blast
  have r: "resample_ok N t" using assms(1) by (simp add: trial_ok_def)
  show ?thesis
    using M' k by (simp add: cfg_trial_def trial_sorted_Mh[OF assms(1)]
        count_pairs_ok[OF r assms(2)] dims_mat mat_nth co_occur_def)
qed

lemma acc_inv_zeros: "acc_inv N (zeros N, zeros N)"
  by (simp add: acc_inv_def dims_zeros zeros_nth)

lemma acc_inv_update:
  assumes "trial_ok N t" "distinct js" "acc_inv N s" "dims N (fst s')" "dims N (snd s')"
    "\<forall>a<N. \<forall>b<N. fst s' ! a ! b = fst s ! a ! b + real (hits t js a b) \<and>
        snd s' ! a ! b = snd s ! a ! b + co_occur t a b"
  shows "acc_inv N s'"
proof -
  have "0 \<le> fst s' ! a ! b \<and>
      fst s' ! a ! b + fst s' ! b ! a \<le> snd s' ! a ! b + snd s' ! b ! a"
    if "a < N" "b < N" for a b
  proof -
    have "0 \<le> fst s ! a ! b" "fst s ! a ! b + fst s ! b ! a \<le> snd s ! a ! b + snd s ! b ! a"
      using assms(3) that by (auto simp: acc_inv_def)
    then show ?thesis
      using assms(6) that hits_sum_le[OF assms(1,2), of a b] by simp
  qed
  moreover have "fst s' ! a ! a = 0" if "a < N" for a
    using assms(3,6) that hits_diag[OF assms(1)] by (simp add: acc_inv_def)
  ultimately show ?thesis
    using assms(4,5) by (simp add: acc_inv_def)
qed

lemma fit_trial_inv:
  assumes "trial_ok N t" "acc_inv N s" "fit_trial N k t s = Inr s'"
  shows "acc_inv N s'"
proof -
  have len: "2 \<le> length (resampled_indices t)"
    using fit_trial_degenerate[of t N k s] assms(3) by (cases "length (resampled_indices t) < 2") auto
  have d: "dims N (fst s)" using assms(2) by (simp add: acc_inv_def)
  from fit_trial_ok[OF assms(1) len d, of k] assms(3)
  have "dims N (fst s')" "dims N (snd s')"
    "\<forall>a<N. \<forall>b<N. fst s' ! a ! b = fst s ! a ! b + real (hits t (py_range 0 k) a b) \<and>
        snd s' ! a ! b = snd s ! a ! b + co_occur t a b"
    by auto
  then show ?thesis
    by (rule acc_inv_update[OF assms(1) py_range_distinct assms(2)])
qed

lemma cfg_trial_inv:
  assumes "trial_ok N t" "acc_inv N s" "cfg_trial N t s = Inr s'"
  shows "acc_inv N s'"
proof -
  have len: "2 \<le> length (resampled_indices t)"
    using cfg_trial_degenerate[of t N s] assms(3) by (cases "length (resampled_indices t) < 2") auto
  have d: "dims N (fst s)" using assms(2) by (simp add: acc_inv_def)
  from cfg_trial_ok[OF assms(1) len d] assms(3)
  have "dims N (fst s')" "dims N (snd s')"
    "\<forall>a<N. \<forall>b<N. fst s' ! a ! b = fst s ! a ! b +
          real (hits t (py_range 0 (int (card (set (Mh t))))) a b) \<and>
        snd s' ! a ! b = snd s ! a ! b + co_occur t a b"
    by auto
  then show ?thesis
    by (rule acc_inv_update[OF assms(1) py_range_distinct assms(2)])
qed

section \<open>The loops over the trials, and the consensus matrix\<close>

lemma trials_loop_error:
  assumes "\<And>h s e. body h s = Inl e \<Longrightarrow> e = IndexError"
  shows "trials_loop body s hs = Inl e \<Longrightarrow> e = IndexError"
proof (induction hs arbitrary: s)
  case Nil
  then show ?case by simp
next
  case (Cons h hs)
  then show ?case using assms by (auto split: sum.splits)
qed

lemma trials_loop_inv:
  assumes "\<And>h s s'. h \<in> set hs \<Longrightarrow> P s \<Longrightarrow> body h s = Inr s' \<Longrightarrow> P s'"
  shows "P s \<Longrightarrow> trials_loop body s hs = Inr s' \<Longrightarrow> P s'"
  using assms
proof (induction hs arbitrary: s)
  case Nil
  then show ?case by simp
next
  case (Cons h hs)
  from Cons.prems(2) obtain s1 where s1: "body h s = Inr s1" "trials_loop body s1 hs = Inr s'"
    by (auto split: sum.splits)
  have "P s1" using Cons.prems(3)[of h s s1] Cons.prems(1) s1(1) by simp
  then show ?case
  proof (rule Cons.IH[OF _ s1(2)])
    fix h' u u'
    assume "h' \<in> set hs" "P u" "body h' u = Inr u'"
    then show "P u'" using Cons.prems(3)[of h' u u'] by simp
  qed
qed

lemma trials_loop_ok:
  assumes "\<And>h s. h \<in> set hs \<Longrightarrow> P s \<Longrightarrow> \<exists>s'. body h s = Inr s' \<and> P s'"
  shows "P s \<Longrightarrow> \<exists>s'. trials_loop body s hs = Inr s' \<and> P s'"
  using assms
proof (induction hs arbitrary: s)
  case Nil
  then show ?case by simp
next
  case (Cons h hs)
  from Cons.prems obtain s1 where s1: "body h s = Inr s1" "P s1" by fastforce
  from Cons.IH[OF s1(2)] Cons.prems(2) obtain s' where
    "trials_loop body s1 hs = Inr s'" "P s'" by fastforce
  then show ?case using s1 by simp
qed

lemma trials_loop_degenerate:
  assumes "h \<in> set hs" "\<And>s. body h s = Inl IndexError"
    "\<And>h s e. body h s = Inl e \<Longrightarrow> e = IndexError"
  shows "trials_loop body s hs = Inl IndexError"
  using assms(1)
proof (induction hs arbitrary: s)
  case Nil
  then show ?case by simp
next
  case (Cons h' hs)
  show ?case
  proof (cases "body h' s")
    case (Inl e)
    then show ?thesis using assms(3) by auto
  next
    case (Inr s1)
    then have "h \<noteq> h'" using assms(2)[of s] by auto
    then show ?thesis using Cons Inr by simp
  qed
qed

lemma consensus_snd: "snd (consensus N s) = zeros N"
  by (simp add: consensus_def Let_def)

lemma consensus_dims: "dims N (fst (consensus N s))"
  by (simp add: consensus_def Let_def add_mat_def dims_mat)

lemma consensus_nth:
  assumes "a < N" "b < N"
  shows "fst (consensus N s) ! a ! b =
     fst s ! a ! b / (snd s ! a ! b + snd s ! b ! a + 1 / 100000000) +
     fst s ! b ! a / (snd s ! b ! a + snd s ! a ! b + 1 / 100000000) +
     (if a = b then 1 else 0)"
  using assms
  by (simp add: consensus_def Let_def add_mat_def add_transpose_def divide_eps_def eye_def mat_nth)

lemma consensus_symmetric:
  assumes "a < N" "b < N"
  shows "fst (consensus N s) ! a ! b = fst (consensus N s) ! b ! a"
  using assms by (simp add: consensus_nth add.commute)

lemma consensus_diag:
  assumes "acc_inv N s" "a < N"
  shows "fst (consensus N s) ! a ! a = 1"
  using assms by (simp add: consensus_nth acc_inv_def)

lemma consensus_bounds:
  assumes "acc_inv N s" "a < N" "b < N"
  shows "0 \<le> fst (consensus N s) ! a ! b \<and> fst (consensus N s) ! a ! b \<le> 1"
proof (cases "a = b")
  case True
  then show ?thesis using consensus_diag[OF assms(1,2)] by simp
next
  case False
  define m1 where "m1 = fst s ! a ! b"
  define m2 where "m2 = fst s ! b ! a"
  define d where "d = snd s ! a ! b + snd s ! b ! a + 1 / 100000000"
  have "0 \<le> fst s ! a ! b \<and>
      fst s ! a ! b + fst s ! b ! a \<le> snd s ! a ! b + snd s ! b ! a"
    "0 \<le> fst s ! b ! a"
    using assms by (simp_all add: acc_inv_def)
  then have m: "0 \<le> m1" "0 \<le> m2" "m1 + m2 < d"
    by (simp_all add: m1_def m2_def d_def)
  then have dpos: "0 < d" by linarith
  have e: "fst (consensus N s) ! a ! b = (m1 + m2) / d"
    using False assms(2,3)
    by (simp add: consensus_nth m1_def m2_def d_def add_divide_distrib add.commute)
  have "0 \<le> (m1 + m2) / d" using m dpos by simp
  moreover have "(m1 + m2) / d \<le> 1" using m dpos by simp
  ultimately show ?thesis using e by simp
qed

section \<open>The loop over the candidate counts\<close>

lemma counts_loop_char:
  assumes "counts_loop N L H draw (Ms, zeros N) ks = Inr s'" "distinct ks"
    "\<forall>k\<in>set ks. L \<le> k \<and> nat (k - L) < length Ms \<and> Ms ! nat (k - L) = zeros N"
  shows "snd s' = zeros N \<and> length (fst s') = length Ms \<and>
     (\<forall>k\<in>set ks. single_count N H k (draw k) = Inr (fst s' ! nat (k - L))) \<and>
     (\<forall>i<length Ms. i \<notin> (\<lambda>k. nat (k - L)) ` set ks \<longrightarrow> fst s' ! i = Ms ! i)"
  using assms
proof (induction ks arbitrary: Ms)
  case Nil
  then show ?case by auto
next
  case (Cons k ks)
  define i where "i = nat (k - L)"
  have k: "L \<le> k" "i < length Ms" "Ms ! i = zeros N"
    using Cons.prems(3) by (simp_all add: i_def)
  from Cons.prems(1) obtain u where
    u: "trials_loop (\<lambda>h. fit_trial N k (draw k h)) (zeros N, zeros N) (py_range 0 H) = Inr u"
    and rest: "counts_loop N L H draw (Ms[i := fst (consensus N u)], zeros N) ks = Inr s'"
    by (auto simp: Let_def i_def[symmetric] k(3) consensus_snd split: sum.splits)
  have sc: "single_count N H k (draw k) = Inr (fst (consensus N u))"
    by (simp add: single_count_def u)
  have ne: "nat (k' - L) \<noteq> i" if "k' \<in> set ks" for k'
  proof -
    have "L \<le> k'" "k' \<noteq> k" using that Cons.prems(2,3) by auto
    then show ?thesis using k(1) by (simp add: i_def)
  qed
  have pre: "\<forall>k'\<in>set ks. L \<le> k' \<and> nat (k' - L) < length (Ms[i := fst (consensus N u)]) \<and>
      Ms[i := fst (consensus N u)] ! nat (k' - L) = zeros N"
  proof
    fix k' assume k': "k' \<in> set ks"
    then have "L \<le> k'" "nat (k' - L) < length Ms" "Ms ! nat (k' - L) = zeros N"
      using Cons.prems(3) by auto
    then show "L \<le> k' \<and> nat (k' - L) < length (Ms[i := fst (consensus N u)]) \<and>
      Ms[i := fst (consensus N u)] ! nat (k' - L) = zeros N"
      using ne[OF k'] by simp
  qed
  have d: "distinct ks" using Cons.prems(2) by simp
  from Cons.IH[OF rest d pre] have IH:
    "snd s' = zeros N" "length (fst s') = length Ms"
    "\<forall>k\<in>set ks. single_count N H k (draw k) = Inr (fst s' ! nat (k - L))"
    "\<forall>j<length Ms. j \<notin> (\<lambda>k. nat (k - L)) ` set ks \<longrightarrow>
        fst s' ! j = Ms[i := fst (consensus N u)] ! j"
    by simp_all
  have "i \<notin> (\<lambda>k. nat (k - L)) ` set ks" using ne by auto
  then have "fst s' ! i = fst (consensus N u)" using IH(4) k(2) by simp
  then have 1: "single_count N H k (draw k) = Inr (fst s' ! nat (k - L))"
    using sc by (simp add: i_def)
  have 2: "\<forall>j<length Ms. j \<notin> (\<lambda>k. nat (k - L)) ` set (k # ks) \<longrightarrow> fst s' ! j = Ms ! j"
    using IH(4) by (auto simp: i_def)
  show ?case using IH(1,2,3) 1 2 by simp
qed

lemma fit_Mk:
  assumes "fit histogram draw e data = Inr e'"
  shows "\<exists>Ms. Mk e' = Some (Arr3 Ms) \<and> length Ms = nat (K_cfg e - L_cfg e) \<and>
     (\<forall>i<length Ms. single_count (length data) (H_cfg e) (L_cfg e + int i)
         (draw (L_cfg e + int i)) = Inr (Ms ! i))"
proof -
  define N where "N = length data"
  from fit_Inr[OF assms] obtain s where
    s: "counts_loop N (L_cfg e) (H_cfg e) draw
            (replicate (nat (K_cfg e - L_cfg e)) (zeros N), zeros N)
            (py_range (L_cfg e) (K_cfg e)) = Inr s"
    and len: "length (fst s) = nat (K_cfg e - L_cfg e)"
    and e': "Mk e' = Some (Arr3 (fst s))"
    by (auto simp: N_def)
  have pre: "\<forall>k\<in>set (py_range (L_cfg e) (K_cfg e)). L_cfg e \<le> k \<and>
      nat (k - L_cfg e) < length (replicate (nat (K_cfg e - L_cfg e)) (zeros N)) \<and>
      replicate (nat (K_cfg e - L_cfg e)) (zeros N) ! nat (k - L_cfg e) = zeros N"
    by (auto simp: py_range_set)
  from counts_loop_char[OF s py_range_distinct pre] have
    c: "\<forall>k\<in>set (py_range (L_cfg e) (K_cfg e)).
          single_count N (H_cfg e) k (draw k) = Inr (fst s ! nat (k - L_cfg e))"
    by simp
  have "single_count N (H_cfg e) (L_cfg e + int i) (draw (L_cfg e + int i)) = Inr (fst s ! i)"
    if "i < length (fst s)" for i
  proof -
    have "L_cfg e + int i \<in> set (py_range (L_cfg e) (K_cfg e))"
      using that len by (auto simp: py_range_set)
    with c show ?thesis by fastforce
  qed
  then show ?thesis using e' len by (simp add: N_def)
qed

lemma single_count_inv:
  assumes "single_count N H k d = Inr C"
    "\<And>h. 0 \<le> h \<Longrightarrow> h < H \<Longrightarrow> trial_ok N (d h)"
  shows "\<exists>s. acc_inv N s \<and> C = fst (consensus N s)"
proof -
  from assms(1) obtain s where
    s: "trials_loop (\<lambda>h. fit_trial N k (d h)) (zeros N, zeros N) (py_range 0 H) = Inr s"
    and C: "C = fst (consensus N s)"
    by (auto simp: single_count_def split: sum.splits)
  have "acc_inv N s"
  proof (rule trials_loop_inv[where P = "acc_inv N", OF _ acc_inv_zeros s])
    fix h u u'
    assume "h \<in> set (py_range 0 H)" "acc_inv N u" "fit_trial N k (d h) u = Inr u'"
    then show "acc_inv N u'"
      using assms(2)[of h] fit_trial_inv[of N "d h" u k u'] by (simp add: py_range_set)
  qed
  then show ?thesis using C by blast
qed

lemma counts_loop_error: "counts_loop N L H draw s ks = Inl e \<Longrightarrow> e = IndexError"
proof (induction ks arbitrary: s)
  case Nil
  then show ?case by simp
next
  case (Cons k ks)
  from Cons.prems show ?case
  proof (cases "trials_loop (\<lambda>h. fit_trial N k (draw k h)) (fst s ! nat (k - L), snd s) (py_range 0 H)")
    case (Inl e1)
    then have "e1 = IndexError"
      by (rule trials_loop_error[rotated]) (rule fit_trial_error)
    with Inl Cons.prems show ?thesis by (simp add: Let_def)
  next
    case (Inr u)
    with Cons.prems Cons.IH show ?thesis by (simp add: Let_def)
  qed
qed

lemma counts_loop_degenerate:
  assumes "k \<in> set ks" "h \<in> set (py_range 0 H)"
    "length (resampled_indices (draw k h)) < 2"
  shows "counts_loop N L H draw s ks = Inl IndexError"
  using assms(1)
proof (induction ks arbitrary: s)
  case Nil
  then show ?case by simp
next
  case (Cons k' ks)
  show ?case
  proof (cases "trials_loop (\<lambda>h. fit_trial N k' (draw k' h)) (fst s ! nat (k' - L), snd s) (py_range 0 H)")
    case (Inl e1)
    then have "e1 = IndexError"
      by (rule trials_loop_error[rotated]) (rule fit_trial_error)
    with Inl show ?thesis by (simp add: Let_def)
  next
    case (Inr u)
    have "k \<noteq> k'"
    proof
      assume "k = k'"
      then have "trials_loop (\<lambda>h. fit_trial N k' (draw k' h)) (fst s ! nat (k' - L), snd s)
          (py_range 0 H) = Inl IndexError"
        using assms(2,3)
        by (intro trials_loop_degenerate[where h = h] fit_trial_degenerate fit_trial_error) auto
      with Inr show False by simp
    qed
    then have "k \<in> set ks" using Cons.prems by simp
    from Cons.IH[OF this] Inr show ?thesis by (simp add: Let_def)
  qed
qed

lemma counts_loop_ok:
  assumes "\<forall>k\<in>set ks. \<forall>h\<in>set (py_range 0 H).
      trial_ok N (draw k h) \<and> 2 \<le> length (resampled_indices (draw k h))"
    "\<forall>k\<in>set ks. nat (k - L) < length (fst s)" "list_all (dims N) (fst s)"
  shows "\<exists>s'. counts_loop N L H draw s ks = Inr s'"
  using assms
proof (induction ks arbitrary: s)
  case Nil
  then show ?case by simp
next
  case (Cons k ks)
  define i where "i = nat (k - L)"
  have i: "i < length (fst s)" "dims N (fst s ! i)"
    using Cons.prems(2,3) by (auto simp: i_def list_all_length)
  have "\<exists>u. trials_loop (\<lambda>h. fit_trial N k (draw k h)) (fst s ! i, snd s) (py_range 0 H) = Inr u
      \<and> dims N (fst u)"
  proof (rule trials_loop_ok[where P = "\<lambda>u. dims N (fst u)"])
    show "dims N (fst (fst s ! i, snd s))" using i by simp
  next
    fix h and u :: "matrix \<times> matrix"
    assume "h \<in> set (py_range 0 H)" "dims N (fst u)"
    then show "\<exists>u'. fit_trial N k (draw k h) u = Inr u' \<and> dims N (fst u')"
      using Cons.prems(1) fit_trial_ok[of N "draw k h" u k] by fastforce
  qed
  then obtain u where
    u: "trials_loop (\<lambda>h. fit_trial N k (draw k h)) (fst s ! i, snd s) (py_range 0 H) = Inr u"
    by blast
  let ?s1 = "((fst s)[i := fst (consensus N u)], snd (consensus N u))"
  have "list_all (dims N) (fst ?s1)"
    using Cons.prems(3) consensus_dims[of N u]
    by (auto simp: list_all_iff dest!: set_update_subset_insert[THEN subsetD])
  moreover have "\<forall>k\<in>set ks. nat (k - L) < length (fst ?s1)"
    using Cons.prems(2) by simp
  moreover have "\<forall>k\<in>set ks. \<forall>h\<in>set (py_range 0 H).
      trial_ok N (draw k h) \<and> 2 \<le> length (resampled_indices (draw k h))"
    using Cons.prems(1) by simp
  ultimately obtain s' where "counts_loop N L H draw ?s1 ks = Inr s'"
    using Cons.IH[of ?s1] by blast
  then show ?case using u by (simp add: Let_def i_def)
qed

lemma fit_ok:
  assumes "L_cfg e \<le> K_cfg e"
    "\<And>k h. L_cfg e \<le> k \<Longrightarrow> k < K_cfg e \<Longrightarrow> 0 \<le> h \<Longrightarrow> h < H_cfg e \<Longrightarrow>
       trial_ok (length data) (draw k h) \<and> 2 \<le> length (resampled_indices (draw k h))"
  shows "\<exists>e'. fit histogram draw e data = Inr e'"
proof -
  have "\<exists>s'. counts_loop (length data) (L_cfg e) (H_cfg e) draw
            (replicate (nat (K_cfg e - L_cfg e)) (zeros (length data)), zeros (length data))
            (py_range (L_cfg e) (K_cfg e)) = Inr s'"
  proof (rule counts_loop_ok)
    show "\<forall>k\<in>set (py_range (L_cfg e) (K_cfg e)). \<forall>h\<in>set (py_range 0 (H_cfg e)).
        trial_ok (length data) (draw k h) \<and> 2 \<le> length (resampled_indices (draw k h))"
      using assms(2) by (simp add: py_range_set)
  qed (auto simp: py_range_set list_all_iff dims_zeros)
  then show ?thesis
    using assms(1) by (auto simp: fit_def Let_def)
qed

lemma fit_degenerate:
  assumes "L_cfg e \<le> k" "k < K_cfg e" "0 \<le> h" "h < H_cfg e"
    "length (resampled_indices (draw k h)) < 2"
  shows "fit histogram draw e data = Inl IndexError"
proof -
  have "k \<in> set (py_range (L_cfg e) (K_cfg e))" "h \<in> set (py_range 0 (H_cfg e))"
    using assms by (simp_all add: py_range_set)
  from counts_loop_degenerate[of k _ h "H_cfg e" draw, OF this assms(5)] show ?thesis
    using assms(1,2) by (simp add: fit_def Let_def)
qed

section \<open>A worked example, and success of the two fitting calls\<close>

lemma example_trial_ok: "trial_ok 3 example_trial"
  by (simp add: trial_ok_def resample_ok_def labels_ok_def argsort_ok_def example_trial_def)

lemma example_length: "length example_data = 3"
  by (simp add: example_data_def)

lemma example_rows: "2 \<le> length (resampled_indices example_trial)"
  by (simp add: example_trial_def)

lemma example_fit: "\<exists>e'. fit example_histogram (\<lambda>k h. example_trial) example_engine example_data = Inr e'"
  by (rule fit_ok) (simp_all add: example_engine_def example_length example_trial_ok example_rows)

lemma fit_from_cfg_ok:
  assumes "\<And>h. 0 \<le> h \<Longrightarrow> h < H_cfg e \<Longrightarrow>
       trial_ok (length data) (draw h) \<and> 2 \<le> length (resampled_indices (draw h))"
  shows "\<exists>e'. fit_from_cfg draw e data = Inr e'"
proof -
  have "\<exists>u. trials_loop (\<lambda>h. cfg_trial (length data) (draw h))
      (zeros (length data), zeros (length data)) (py_range 0 (H_cfg e)) = Inr u \<and>
      dims (length data) (fst u)"
  proof (rule trials_loop_ok[where P = "\<lambda>u. dims (length data) (fst u)"])
    show "dims (length data) (fst (zeros (length data), zeros (length data)))"
      by (simp add: dims_zeros)
  next
    fix h and u :: "matrix \<times> matrix"
    assume "h \<in> set (py_range 0 (H_cfg e))" "dims (length data) (fst u)"
    then show "\<exists>u'. cfg_trial (length data) (draw h) u = Inr u' \<and> dims (length data) (fst u')"
      using assms[of h] cfg_trial_ok[of "length data" "draw h" u] by (fastforce simp: py_range_set)
  qed
  then show ?thesis by (auto simp: fit_from_cfg_def Let_def)
qed

lemma example_fit_from_cfg:
  "\<exists>e'. fit_from_cfg (\<lambda>h. example_trial) example_engine example_data = Inr e'"
  by (rule fit_from_cfg_ok) (simp add: example_length example_trial_ok example_rows)

lemma fit_keeps_cfg:
  "fit histogram draw e data = Inr e' \<Longrightarrow> L_cfg e' = L_cfg e \<and> K_cfg e' = K_cfg e \<and> H_cfg e' = H_cfg e"
  by (auto simp: fit_def Let_def split: if_splits sum.splits)

section \<open>The worked example, evaluated\<close>

lemma upt3: "[0..<3] = [0, 1, 2]"
  by (simp add: upt_rec)

lemma zeros3: "zeros 3 = [[0, 0, 0], [0, 0, 0], [0, 0, 0]]"
  by (simp add: zeros_def mat_def upt3)

lemmas trial_eval = fit_trial_def cfg_trial_def fancy_def mat_def
  bisect_left_def bisect_right_def slice_def add_at_def count_pairs_def py_range_def
  upto.simps Let_def upt3

lemma example_first_trial:
  "fit_trial 3 2 example_trial (zeros 3, zeros 3) =
     Inr ([[0, 0, 0], [0, 0, 0], [0, 1, 0]], [[0, 1, 0], [0, 0, 0], [1, 1, 0]])"
  "fit_trial 3 3 example_trial (zeros 3, zeros 3) =
     Inr ([[0, 0, 0], [0, 0, 0], [0, 1, 0]], [[0, 1, 0], [0, 0, 0], [1, 1, 0]])"
  "fit_trial 3 4 example_trial (zeros 3, zeros 3) =
     Inr ([[0, 0, 0], [0, 0, 0], [0, 1, 0]], [[0, 1, 0], [0, 0, 0], [1, 1, 0]])"
  by (simp_all add: zeros3 example_trial_def trial_eval)

lemma example_second_trial:
  "fit_trial 3 2 example_trial
       ([[0, 0, 0], [0, 0, 0], [0, 1, 0]], [[0, 1, 0], [0, 0, 0], [1, 1, 0]]) =
     Inr ([[0, 0, 0], [0, 0, 0], [0, 2, 0]], [[0, 2, 0], [0, 0, 0], [2, 2, 0]])"
  "fit_trial 3 3 example_trial
       ([[0, 0, 0], [0, 0, 0], [0, 1, 0]], [[0, 1, 0], [0, 0, 0], [1, 1, 0]]) =
     Inr ([[0, 0, 0], [0, 0, 0], [0, 2, 0]], [[0, 2, 0], [0, 0, 0], [2, 2, 0]])"
  "fit_trial 3 4 example_trial
       ([[0, 0, 0], [0, 0, 0], [0, 1, 0]], [[0, 1, 0], [0, 0, 0], [1, 1, 0]]) =
     Inr ([[0, 0, 0], [0, 0, 0], [0, 2, 0]], [[0, 2, 0], [0, 0, 0], [2, 2, 0]])"
  by (simp_all add: example_trial_def trial_eval)

lemma example_consensus_eval:
  "consensus 3 ([[0, 0, 0], [0, 0, 0], [0, 2, 0]], [[0, 2, 0], [0, 0, 0], [2, 2, 0]]) =
     (example_consensus, zeros 3)"
  by (simp add: consensus_def Let_def add_transpose_def divide_eps_def add_mat_def eye_def
      mat_def upt3 zeros_def example_consensus_def)

lemma example_trials:
  "k = 2 \<or> k = 3 \<or> k = 4 \<Longrightarrow>
     trials_loop (\<lambda>h. fit_trial 3 k example_trial) (zeros 3, zeros 3) (py_range 0 2) =
     Inr ([[0, 0, 0], [0, 0, 0], [0, 2, 0]], [[0, 2, 0], [0, 0, 0], [2, 2, 0]])"
  by (auto simp: py_range_def upto.simps example_first_trial example_second_trial)

lemma example_single_count:
  "k = 2 \<or> k = 3 \<or> k = 4 \<Longrightarrow>
     single_count 3 2 k (\<lambda>h. example_trial) = Inr example_consensus"
  by (simp add: single_count_def example_trials example_consensus_eval)

lemma example_counts:
  "counts_loop 3 2 2 (\<lambda>k h. example_trial) (replicate 3 (zeros 3), zeros 3) [2, 3, 4] =
     Inr ([example_consensus, example_consensus, example_consensus], zeros 3)"
proof -
  have rep: "replicate 3 (zeros 3) = [zeros 3, zeros 3, zeros 3]"
    by (simp add: numeral_3_eq_3)
  show ?thesis
    by (simp add: rep example_trials example_consensus_eval)
qed

lemma example_area: "cdf_area example_histogram m = 5"
  by (simp add: cdf_area_def example_histogram_def cumsum_def Let_def)

lemma example_fit_eval:
  "fit example_histogram (\<lambda>k h. example_trial) example_engine example_data = Inr example_fitted"
proof -
  have r: "py_range 2 5 = [2, 3, 4]" by (simp add: py_range_def upto.simps)
  have d: "delta_curve 2 5 [5, 5, 5] = [5, 0]"
    by (simp add: delta_curve_def py_range_def upto.simps)
  have b: "best_count 2 [5, 0] = 2" by (simp add: best_count_def argmax_def)
  show ?thesis
    unfolding fit_def example_length
    by (simp add: example_engine_def r example_counts example_area d b example_fitted_def
        del: counts_loop.simps)
qed

lemma example_cfg_trial:
  "cfg_trial 3 example_trial (zeros 3, zeros 3) =
     Inr ([[0, 0, 0], [0, 0, 0], [0, 1, 0]], [[0, 1, 0], [0, 0, 0], [1, 1, 0]])"
  by (simp add: zeros3 example_trial_def trial_eval)

section \<open>One trial of fit_from_cfg\<close>

lemma argsort_set:
  assumes "trial_ok N t"
  shows "set (id_clusts t) = {..<length (Mh t)}"
proof -
  have "distinct (id_clusts t)" "length (id_clusts t) = length (Mh t)"
    "set (id_clusts t) \<subseteq> {..<length (Mh t)}"
    using assms by (auto simp: trial_ok_def argsort_ok_def list_all_iff)
  then show ?thesis
    by (metis card_lessThan card_subset_eq distinct_card finite_lessThan)
qed

lemma row_in_cluster:
  assumes "trial_ok N t" "p < length (Mh t)"
  shows "resampled_indices t ! p \<in> set (cluster_rows t (Mh t ! p))"
proof -
  have "p \<in> set (id_clusts t)" using argsort_set[OF assms(1)] assms(2) by simp
  then show ?thesis by (auto simp: cluster_rows_def)
qed

lemma cfg_trial_cells:
  assumes "trial_ok N t" "dims N (fst s)" "cfg_trial N t s = Inr s'" "a < N" "b < N"
  shows "fst s' ! a ! b =
     fst s ! a ! b + real (hits t (py_range 0 (int (card (set (Mh t))))) a b)"
proof -
  have len: "2 \<le> length (resampled_indices t)"
    using cfg_trial_degenerate[of t N s] assms(3)
    by (cases "length (resampled_indices t) < 2") auto
  from cfg_trial_ok[OF assms(1) len assms(2)] assms(3,4,5) show ?thesis by auto
qed

lemma same_cluster_once:
  assumes "trial_ok N t" "dims N (fst s)" "cfg_trial N t s = Inr s'"
    "p < length (Mh t)" "q < length (Mh t)" "p \<noteq> q" "Mh t ! p = Mh t ! q"
    "0 \<le> Mh t ! p" "Mh t ! p < int (card (set (Mh t)))"
  shows "counted_once (fst s) (fst s') (resampled_indices t ! p) (resampled_indices t ! q)"
proof -
  define a where "a = resampled_indices t ! p"
  define b where "b = resampled_indices t ! q"
  define l where "l = Mh t ! p"
  define js where "js = py_range 0 (int (card (set (Mh t))))"
  have n: "length (Mh t) = length (resampled_indices t)"
    and d: "distinct (resampled_indices t)"
    and r: "list_all (\<lambda>a. a < N) (resampled_indices t)"
    using assms(1) by (simp_all add: trial_ok_def labels_ok_def resample_ok_def)
  have ab: "a \<noteq> b" "a < N" "b < N"
    using assms(4,5,6) n d r by (auto simp: a_def b_def nth_eq_iff_index_eq list_all_length)
  have mem: "a \<in> set (cluster_rows t l)" "b \<in> set (cluster_rows t l)"
    using row_in_cluster[OF assms(1,4)] row_in_cluster[OF assms(1,5)] assms(7)
    by (simp_all add: a_def b_def l_def)
  have l: "l \<in> set js" using assms(8,9) by (simp add: js_def l_def py_range_set)
  have dj: "distinct js" by (simp add: js_def py_range_distinct)
  have cells: "fst s' ! a ! b = fst s ! a ! b + real (hits t js a b)"
    "fst s' ! b ! a = fst s ! b ! a + real (hits t js b a)"
    using cfg_trial_cells[OF assms(1,2,3)] ab by (simp_all add: js_def)
  from combinations2_total[OF mem ab(1)] show ?thesis
  proof
    assume h: "(a, b) \<in> set (combinations2 (cluster_rows t l))"
    show ?thesis
      using hits_one[OF assms(1) dj l h] hits_reverse_zero[OF assms(1) h, of js] cells
      by (simp add: counted_once_def a_def b_def)
  next
    assume h: "(b, a) \<in> set (combinations2 (cluster_rows t l))"
    show ?thesis
      using hits_one[OF assms(1) dj l h] hits_reverse_zero[OF assms(1) h, of js] cells
      by (simp add: counted_once_def a_def b_def)
  qed
qed

lemma skipped_cluster_unchanged:
  assumes "trial_ok N t" "dims N (fst s)" "cfg_trial N t s = Inr s'"
    "p < length (Mh t)" "int (card (set (Mh t))) \<le> Mh t ! p \<or> Mh t ! p < 0" "b < N"
  shows "fst s' ! (resampled_indices t ! p) ! b = fst s ! (resampled_indices t ! p) ! b \<and>
         fst s' ! b ! (resampled_indices t ! p) = fst s ! b ! (resampled_indices t ! p)"
proof -
  define a where "a = resampled_indices t ! p"
  define js where "js = py_range 0 (int (card (set (Mh t))))"
  have n: "length (Mh t) = length (resampled_indices t)"
    and r: "list_all (\<lambda>a. a < N) (resampled_indices t)"
    using assms(1) by (simp_all add: trial_ok_def labels_ok_def resample_ok_def)
  have a: "a < N" using assms(4) n r by (simp add: a_def list_all_length)
  have out: "Mh t ! p \<notin> set js" using assms(5) by (auto simp: js_def py_range_set)
  have m: "a \<in> set (cluster_rows t (Mh t ! p))"
    using row_in_cluster[OF assms(1,4)] by (simp add: a_def)
  have no: "a \<notin> set (cluster_rows t i)" if "i \<in> set js" for i
  proof
    assume "a \<in> set (cluster_rows t i)"
    with m have "Mh t ! p = i" by (rule cluster_rows_disjoint[OF assms(1)])
    with that out show False by simp
  qed
  have h1: "hits t js a b = 0"
  proof (rule ccontr)
    assume "hits t js a b \<noteq> 0"
    then have "0 < hits t js a b" by simp
    from hits_pos[OF this] obtain i where i: "i \<in> set js"
      "(a, b) \<in> set (combinations2 (cluster_rows t i))" by blast
    from combinations2_mem[OF i(2)] no[OF i(1)] show False by simp
  qed
  have h2: "hits t js b a = 0"
  proof (rule ccontr)
    assume "hits t js b a \<noteq> 0"
    then have "0 < hits t js b a" by simp
    from hits_pos[OF this] obtain i where i: "i \<in> set js"
      "(b, a) \<in> set (combinations2 (cluster_rows t i))" by blast
    from combinations2_mem[OF i(2)] no[OF i(1)] show False by simp
  qed
  have c1: "fst s' ! a ! b = fst s ! a ! b + real (hits t js a b)"
    using cfg_trial_cells[OF assms(1,2,3) a assms(6)] by (simp only: js_def)
  have c2: "fst s' ! b ! a = fst s ! b ! a + real (hits t js b a)"
    using cfg_trial_cells[OF assms(1,2,3) assms(6) a] by (simp only: js_def)
  from c1 c2 h1 h2 have "fst s' ! a ! b = fst s ! a ! b \<and> fst s' ! b ! a = fst s ! b ! a"
    by simp
  then show ?thesis unfolding a_def .
qed

lemma skipping_trial_ok: "trial_ok 3 skipping_trial"
  by (simp add: trial_ok_def resample_ok_def labels_ok_def argsort_ok_def skipping_trial_def)

lemma skipping_cfg_trial:
  "cfg_trial 3 skipping_trial (zeros 3, zeros 3) =
     Inr ([[0, 0, 0], [0, 0, 0], [0, 0, 0]], [[0, 1, 1], [0, 0, 1], [0, 0, 0]])"
  by (simp add: zeros3 cfg_trial_def skipping_trial_def fancy_def mat_def
      bisect_left_def bisect_right_def slice_def add_at_def count_pairs_def py_range_def
      upto.simps Let_def upt3)

lemma example_labels: "set (Mh example_trial) = {0..<2}"
proof -
  have "{0..<2::int} = {0, 1}" by auto
  then show ?thesis by (auto simp: example_trial_def)
qed

lemma example_label_count: "card (set (Mh example_trial)) = 2"
proof -
  have "set (Mh example_trial) = {0, 1}" by (auto simp: example_trial_def)
  then show ?thesis by simp
qed

lemma skipping_label_count: "card (set (Mh skipping_trial)) = 2"
proof -
  have "set (Mh skipping_trial) = {0, 7}" by (auto simp: skipping_trial_def)
  then show ?thesis by simp
qed

section \<open>The state between candidate counts, and the area under the curve\<close>

lemma counts_loop_append:
  "counts_loop N L H draw s (xs @ ys) =
     (case counts_loop N L H draw s xs of
        Inl e \<Rightarrow> Inl e
      | Inr s' \<Rightarrow> counts_loop N L H draw s' ys)"
proof (induction xs arbitrary: s)
  case Nil
  then show ?case by simp
next
  case (Cons k xs)
  then show ?case by (simp add: Let_def split: sum.splits)
qed

lemma py_range_split:
  assumes "a \<le> b" "b \<le> c"
  shows "py_range a c = py_range a b @ py_range b c"
proof -
  have "[a..c - 1] = [a..b - 1] @ [b..c - 1]"
  proof (cases "b = c")
    case True
    then show ?thesis by simp
  next
    case False
    then show ?thesis using assms upto_split1[of a b "c - 1"] by simp
  qed
  then show ?thesis by (simp add: py_range_def)
qed

lemma counts_loop_prefix:
  assumes "counts_loop N L H draw (replicate n (zeros N), zeros N) (py_range L K) = Inr s'"
    "n = nat (K - L)" "i < n"
  shows "\<exists>s. counts_loop N L H draw (replicate n (zeros N), zeros N)
              (py_range L (L + int i)) = Inr s \<and>
           counts_loop N L H draw s (py_range (L + int i) K) = Inr s' \<and>
           snd s = zeros N \<and> fst s ! i = zeros N"
proof -
  have split: "py_range L K = py_range L (L + int i) @ py_range (L + int i) K"
    using assms(2,3) by (intro py_range_split) auto
  from assms(1) obtain s where
    s: "counts_loop N L H draw (replicate n (zeros N), zeros N) (py_range L (L + int i)) = Inr s"
    and rest: "counts_loop N L H draw s (py_range (L + int i) K) = Inr s'"
    unfolding split counts_loop_append by (auto split: sum.splits)
  have pre: "\<forall>k\<in>set (py_range L (L + int i)). L \<le> k \<and>
      nat (k - L) < length (replicate n (zeros N)) \<and>
      replicate n (zeros N) ! nat (k - L) = zeros N"
    using assms(3) by (auto simp: py_range_set)
  from counts_loop_char[OF s py_range_distinct pre] have
    z: "snd s = zeros N" and
    u: "\<forall>j<length (replicate n (zeros N)).
          j \<notin> (\<lambda>k. nat (k - L)) ` set (py_range L (L + int i)) \<longrightarrow>
          fst s ! j = replicate n (zeros N) ! j"
    by simp_all
  have "i \<notin> (\<lambda>k. nat (k - L)) ` set (py_range L (L + int i))"
    by (auto simp: py_range_set)
  then have "fst s ! i = zeros N" using u assms(3) by simp
  then show ?thesis using s rest z by blast
qed

lemma counts_loop_final_counter:
  assumes "counts_loop N L H draw (replicate n (zeros N), zeros N) (py_range L K) = Inr s'"
    "n = nat (K - L)"
  shows "snd s' = zeros N"
proof -
  have pre: "\<forall>k\<in>set (py_range L K). L \<le> k \<and>
      nat (k - L) < length (replicate n (zeros N)) \<and>
      replicate n (zeros N) ! nat (k - L) = zeros N"
    using assms(2) by (auto simp: py_range_set)
  from counts_loop_char[OF assms(1) py_range_distinct pre] show ?thesis by simp
qed




section \<open>The claims\<close>

text \<open>
  C6 (as the claim states it, refuted): construction with an upper bound not above the
  lower bound fails. At \<open>L = 3\<close>, \<open>K = 3\<close>, \<open>H = 5\<close> and proportion \<open>1/2\<close> the
  constructor returns an engine: the only check in \<open>__init__\<close> is the assertion on
  the proportion.
\<close>

theorem init_empty_range_counterexample:
  "init 3 3 5 (1/2) =
     Inr \<lparr>L_cfg = 3, K_cfg = 3, H_cfg = 5, resample_proportion_cfg = 1/2,
          Mk = None, Ak = None, deltaK = None, bestK = None, X = None\<rparr>"
  by (simp add: init_def)

text \<open>
  C6 (amended): construction fails, with the assertion's error, exactly when the
  proportion is outside the closed interval from 0 to 1, whatever the candidate range;
  in every other case it succeeds, stores the four configuration values unchanged and
  leaves \<open>Mk\<close>, \<open>Ak\<close>, \<open>deltaK\<close> and \<open>bestK\<close> unset.
\<close>

theorem init_checks_proportion_only:
  "init L K H p =
     (if p < 0 \<or> 1 < p then Inl AssertionError
      else Inr \<lparr>L_cfg = L, K_cfg = K, H_cfg = H, resample_proportion_cfg = p,
                Mk = None, Ak = None, deltaK = None, bestK = None, X = None\<rparr>)"
  by (auto simp: init_def)

text \<open>
  C1: after a successful \<open>fit\<close> on \<open>N\<close> rows, for every candidate count \<open>k\<close> from \<open>L\<close>
  up to \<open>K - 1\<close> the stored consensus matrix \<open>Mk[k - L]\<close> is an \<open>N\<close> by \<open>N\<close> array that is
  symmetric and has every diagonal entry equal to 1. The trials are what the library
  calls can return: rows drawn without replacement, one label per row, a sorting
  permutation.
\<close>

theorem fit_consensus_symmetric_unit_diagonal:
  assumes "fit histogram draw e data = Inr e'"
    and "\<And>k h. L_cfg e \<le> k \<Longrightarrow> k < K_cfg e \<Longrightarrow> 0 \<le> h \<Longrightarrow> h < H_cfg e \<Longrightarrow>
       trial_ok (length data) (draw k h)"
  shows "\<exists>Ms. Mk e' = Some (Arr3 Ms) \<and> length Ms = nat (K_cfg e - L_cfg e) \<and>
     (\<forall>i<length Ms. dims (length data) (Ms ! i) \<and>
        (\<forall>a<length data. \<forall>b<length data. Ms ! i ! a ! b = Ms ! i ! b ! a) \<and>
        (\<forall>a<length data. Ms ! i ! a ! a = 1))"
proof -
  from fit_Mk[OF assms(1)] obtain Ms where Ms: "Mk e' = Some (Arr3 Ms)"
    "length Ms = nat (K_cfg e - L_cfg e)"
    "\<forall>i<length Ms. single_count (length data) (H_cfg e) (L_cfg e + int i)
         (draw (L_cfg e + int i)) = Inr (Ms ! i)"
    by blast
  have "dims (length data) (Ms ! i) \<and>
        (\<forall>a<length data. \<forall>b<length data. Ms ! i ! a ! b = Ms ! i ! b ! a) \<and>
        (\<forall>a<length data. Ms ! i ! a ! a = 1)" if i: "i < length Ms" for i
  proof -
    have "\<exists>s. acc_inv (length data) s \<and> Ms ! i = fst (consensus (length data) s)"
    proof (rule single_count_inv)
      show "single_count (length data) (H_cfg e) (L_cfg e + int i)
         (draw (L_cfg e + int i)) = Inr (Ms ! i)" using Ms(3) i by simp
    next
      fix h assume "0 \<le> h" "h < H_cfg e"
      then show "trial_ok (length data) (draw (L_cfg e + int i) h)"
        using assms(2)[of "L_cfg e + int i" h] i Ms(2) by simp
    qed
    then obtain s where "acc_inv (length data) s" "Ms ! i = fst (consensus (length data) s)"
      by blast
    then show ?thesis
      using consensus_dims consensus_symmetric consensus_diag by auto
  qed
  then show ?thesis using Ms(1,2) by blast
qed

text \<open>
  The theorem at three rows, candidate counts 2, 3 and 4 and two resamplings each.
\<close>

theorem fit_consensus_symmetric_unit_diagonal_witness:
  "\<exists>e' Ms. fit example_histogram (\<lambda>k h. example_trial) example_engine example_data = Inr e' \<and>
     Mk e' = Some (Arr3 Ms) \<and> length Ms = 3 \<and>
     Ms ! 0 ! 1 ! 2 = Ms ! 0 ! 2 ! 1 \<and> Ms ! 2 ! 0 ! 1 = Ms ! 2 ! 1 ! 0 \<and>
     Ms ! 0 ! 0 ! 0 = 1 \<and> Ms ! 1 ! 1 ! 1 = 1 \<and> Ms ! 2 ! 2 ! 2 = 1"
proof -
  from example_fit obtain e' where
    e': "fit example_histogram (\<lambda>k h. example_trial) example_engine example_data = Inr e'" by blast
  have ok: "\<And>k h. trial_ok (length example_data) example_trial"
    by (simp add: example_length example_trial_ok)
  from fit_consensus_symmetric_unit_diagonal[OF e' ok]
  obtain Ms where "Mk e' = Some (Arr3 Ms)" "length Ms = nat (K_cfg example_engine - L_cfg example_engine)"
    "\<forall>i<length Ms. dims (length example_data) (Ms ! i) \<and>
        (\<forall>a<length example_data. \<forall>b<length example_data. Ms ! i ! a ! b = Ms ! i ! b ! a) \<and>
        (\<forall>a<length example_data. Ms ! i ! a ! a = 1)"
    by blast
  then show ?thesis
    using e' by (auto simp: example_engine_def example_length)
qed

text \<open>
  C2: after a successful \<open>fit\<close>, every entry of every consensus matrix lies between 0 and
  1. In exact arithmetic the guard \<open>1e-8\<close> in the denominator only lowers an entry, so
  the bounds hold without any allowance.
\<close>

theorem fit_consensus_unit_interval:
  assumes "fit histogram draw e data = Inr e'"
    and "\<And>k h. L_cfg e \<le> k \<Longrightarrow> k < K_cfg e \<Longrightarrow> 0 \<le> h \<Longrightarrow> h < H_cfg e \<Longrightarrow>
       trial_ok (length data) (draw k h)"
  shows "\<exists>Ms. Mk e' = Some (Arr3 Ms) \<and> length Ms = nat (K_cfg e - L_cfg e) \<and>
     (\<forall>i<length Ms. \<forall>a<length data. \<forall>b<length data.
        0 \<le> Ms ! i ! a ! b \<and> Ms ! i ! a ! b \<le> 1)"
proof -
  from fit_Mk[OF assms(1)] obtain Ms where Ms: "Mk e' = Some (Arr3 Ms)"
    "length Ms = nat (K_cfg e - L_cfg e)"
    "\<forall>i<length Ms. single_count (length data) (H_cfg e) (L_cfg e + int i)
         (draw (L_cfg e + int i)) = Inr (Ms ! i)"
    by blast
  have "\<forall>a<length data. \<forall>b<length data. 0 \<le> Ms ! i ! a ! b \<and> Ms ! i ! a ! b \<le> 1"
    if i: "i < length Ms" for i
  proof -
    have "\<exists>s. acc_inv (length data) s \<and> Ms ! i = fst (consensus (length data) s)"
    proof (rule single_count_inv)
      show "single_count (length data) (H_cfg e) (L_cfg e + int i)
         (draw (L_cfg e + int i)) = Inr (Ms ! i)" using Ms(3) i by simp
    next
      fix h assume "0 \<le> h" "h < H_cfg e"
      then show "trial_ok (length data) (draw (L_cfg e + int i) h)"
        using assms(2)[of "L_cfg e + int i" h] i Ms(2) by simp
    qed
    then obtain s where "acc_inv (length data) s" "Ms ! i = fst (consensus (length data) s)"
      by blast
    then show ?thesis
      using consensus_bounds by auto
  qed
  then show ?thesis using Ms(1,2) by blast
qed

text \<open>
  The theorem at the same three rows and candidate counts.
\<close>

theorem fit_consensus_unit_interval_witness:
  "\<exists>e' Ms. fit example_histogram (\<lambda>k h. example_trial) example_engine example_data = Inr e' \<and>
     Mk e' = Some (Arr3 Ms) \<and> length Ms = 3 \<and>
     0 \<le> Ms ! 0 ! 1 ! 2 \<and> Ms ! 0 ! 1 ! 2 \<le> 1 \<and> 0 \<le> Ms ! 2 ! 0 ! 1 \<and> Ms ! 2 ! 0 ! 1 \<le> 1"
proof -
  from example_fit obtain e' where
    e': "fit example_histogram (\<lambda>k h. example_trial) example_engine example_data = Inr e'" by blast
  have ok: "\<And>k h. trial_ok (length example_data) example_trial"
    by (simp add: example_length example_trial_ok)
  from fit_consensus_unit_interval[OF e' ok]
  obtain Ms where "Mk e' = Some (Arr3 Ms)" "length Ms = nat (K_cfg example_engine - L_cfg example_engine)"
    "\<forall>i<length Ms. \<forall>a<length example_data. \<forall>b<length example_data.
        0 \<le> Ms ! i ! a ! b \<and> Ms ! i ! a ! b \<le> 1"
    by blast
  then show ?thesis
    using e' by (auto simp: example_engine_def example_length)
qed

text \<open>
  C3 (as the claim states it, refuted): \<open>bestK\<close> lies in the range from \<open>L\<close> up to
  \<open>K - 1\<close> after any successful \<open>fit\<close>. With \<open>L = K = 2\<close> the constructor accepts the
  range, \<open>fit\<close> succeeds without running a trial, \<open>deltaK\<close> is empty and \<open>bestK\<close> is 2,
  which is not below \<open>K\<close>.
\<close>

theorem fit_bestK_outside_range_counterexample:
  "fit example_histogram (\<lambda>k h. example_trial)
     \<lparr>L_cfg = 2, K_cfg = 2, H_cfg = 2, resample_proportion_cfg = 99 / 100,
      Mk = None, Ak = None, deltaK = None, bestK = None, X = None\<rparr> example_data =
   Inr \<lparr>L_cfg = 2, K_cfg = 2, H_cfg = 2, resample_proportion_cfg = 99 / 100,
      Mk = Some (Arr3 []), Ak = Some [], deltaK = Some [], bestK = Some 2, X = None\<rparr> \<and>
   \<not> ((2::int) \<le> 2 \<and> (2::int) < 2)"
  by (simp add: fit_def py_range_def delta_curve_def best_count_def)

text \<open>
  C3 (amended): after a successful \<open>fit\<close>, \<open>bestK\<close> is \<open>L\<close> when \<open>deltaK\<close> is empty, and
  otherwise \<open>L\<close> plus the first index at which \<open>deltaK\<close> takes its greatest value; when
  \<open>L < K\<close> it lies in the range from \<open>L\<close> up to \<open>K - 1\<close>.
\<close>

theorem fit_bestK:
  assumes "fit histogram draw e data = Inr e'"
  shows "\<exists>dK b. deltaK e' = Some dK \<and> bestK e' = Some b \<and>
     (dK = [] \<longrightarrow> b = L_cfg e) \<and>
     (dK \<noteq> [] \<longrightarrow> (\<exists>i<length dK. b = L_cfg e + int i \<and>
         (\<forall>j<length dK. dK ! j \<le> dK ! i) \<and> (\<forall>j<i. dK ! j < dK ! i))) \<and>
     (L_cfg e < K_cfg e \<longrightarrow> L_cfg e \<le> b \<and> b < K_cfg e)"
proof -
  from fit_Inr[OF assms] obtain s :: "matrix list \<times> matrix" where
    len: "length (fst s) = nat (K_cfg e - L_cfg e)" and
    e': "e' = e\<lparr>Mk := Some (Arr3 (fst s)), Ak := Some (map (cdf_area histogram) (fst s)),
                deltaK := Some (delta_curve (L_cfg e) (K_cfg e) (map (cdf_area histogram) (fst s))),
                bestK := Some (best_count (L_cfg e)
                   (delta_curve (L_cfg e) (K_cfg e) (map (cdf_area histogram) (fst s))))\<rparr>"
    by blast
  define dK where "dK = delta_curve (L_cfg e) (K_cfg e) (map (cdf_area histogram) (fst s))"
  define b where "b = best_count (L_cfg e) dK"
  have ldK: "length dK = nat (K_cfg e - L_cfg e) - 1"
    unfolding dK_def using len by (simp add: delta_curve_length)
  have 1: "dK = [] \<longrightarrow> b = L_cfg e"
    by (simp add: b_def best_count_def)
  have 2: "dK \<noteq> [] \<longrightarrow> (\<exists>i<length dK. b = L_cfg e + int i \<and>
         (\<forall>j<length dK. dK ! j \<le> dK ! i) \<and> (\<forall>j<i. dK ! j < dK ! i))"
  proof
    assume ne: "dK \<noteq> []"
    then have "b = L_cfg e + int (argmax dK)" by (simp add: b_def best_count_def)
    with argmax_spec[OF ne] show "\<exists>i<length dK. b = L_cfg e + int i \<and>
         (\<forall>j<length dK. dK ! j \<le> dK ! i) \<and> (\<forall>j<i. dK ! j < dK ! i)"
      by blast
  qed
  have 3: "L_cfg e < K_cfg e \<longrightarrow> L_cfg e \<le> b \<and> b < K_cfg e"
  proof (cases "dK = []")
    case True
    then show ?thesis using 1 by simp
  next
    case False
    with 2 obtain i where "i < length dK" "b = L_cfg e + int i" by blast
    then show ?thesis using ldK by auto
  qed
  show ?thesis
    using 1 2 3 e' by (simp add: dK_def b_def)
qed

text \<open>
  The theorem at candidate counts 2, 3 and 4.
\<close>

theorem fit_bestK_witness:
  "\<exists>e' dK b. fit example_histogram (\<lambda>k h. example_trial) example_engine example_data = Inr e' \<and>
     deltaK e' = Some dK \<and> bestK e' = Some b \<and> 2 \<le> b \<and> b < 5"
proof -
  from example_fit obtain e' where
    e': "fit example_histogram (\<lambda>k h. example_trial) example_engine example_data = Inr e'" by blast
  from fit_bestK[OF e'] show ?thesis
    using e' by (auto simp: example_engine_def)
qed

text \<open>
  C4 (as the claim states it, refuted): \<open>deltaK\<close> has \<open>(K - L) - 1\<close> entries after any
  successful \<open>fit\<close>. With \<open>L = K = 2\<close> the call succeeds and \<open>deltaK\<close> is empty, while
  \<open>(K - L) - 1\<close> is \<open>-1\<close>.
\<close>

theorem fit_deltaK_length_counterexample:
  "deltaK (projr (fit example_histogram (\<lambda>k h. example_trial)
     \<lparr>L_cfg = 2, K_cfg = 2, H_cfg = 2, resample_proportion_cfg = 99 / 100,
      Mk = None, Ak = None, deltaK = None, bestK = None, X = None\<rparr> example_data)) = Some [] \<and>
   int (length ([] :: real list)) \<noteq> (2 - 2) - 1"
  by (simp add: fit_def py_range_def delta_curve_def best_count_def)

text \<open>
  C4 (amended): after a successful \<open>fit\<close>, \<open>Ak\<close> has one entry per candidate count and
  \<open>deltaK\<close> one entry per adjacent pair of candidate counts, that is \<open>(K - L) - 1\<close>
  entries when \<open>L < K\<close> and none when \<open>K = L\<close>; the entry at index \<open>i\<close> is \<open>Ak[i]\<close> when
  the count \<open>L + i\<close> is at most 2 and \<open>(Ak[i+1] - Ak[i]) / Ak[i]\<close> when it exceeds 2.
\<close>

theorem fit_deltaK:
  assumes "fit histogram draw e data = Inr e'"
  shows "\<exists>A dK. Ak e' = Some A \<and> deltaK e' = Some dK \<and>
     length A = nat (K_cfg e - L_cfg e) \<and>
     (L_cfg e < K_cfg e \<longrightarrow> int (length dK) = (K_cfg e - L_cfg e) - 1) \<and>
     (K_cfg e = L_cfg e \<longrightarrow> dK = []) \<and>
     (\<forall>i<length dK.
        (L_cfg e + int i \<le> 2 \<longrightarrow> dK ! i = A ! i) \<and>
        (L_cfg e + int i > 2 \<longrightarrow> dK ! i = (A ! (i + 1) - A ! i) / A ! i))"
proof -
  from fit_Inr[OF assms] obtain s :: "matrix list \<times> matrix" where
    len: "length (fst s) = nat (K_cfg e - L_cfg e)" and
    e': "e' = e\<lparr>Mk := Some (Arr3 (fst s)), Ak := Some (map (cdf_area histogram) (fst s)),
                deltaK := Some (delta_curve (L_cfg e) (K_cfg e) (map (cdf_area histogram) (fst s))),
                bestK := Some (best_count (L_cfg e)
                   (delta_curve (L_cfg e) (K_cfg e) (map (cdf_area histogram) (fst s))))\<rparr>"
    by blast
  define A where "A = map (cdf_area histogram) (fst s)"
  define dK where "dK = delta_curve (L_cfg e) (K_cfg e) A"
  have lA: "length A = nat (K_cfg e - L_cfg e)" using len by (simp add: A_def)
  have ldK: "length dK = nat (K_cfg e - L_cfg e) - 1"
    unfolding dK_def using lA by (rule delta_curve_length)
  have nth: "\<forall>i<length dK.
        (L_cfg e + int i \<le> 2 \<longrightarrow> dK ! i = A ! i) \<and>
        (L_cfg e + int i > 2 \<longrightarrow> dK ! i = (A ! (i + 1) - A ! i) / A ! i)"
    using delta_curve_nth[OF lA] ldK by (simp add: dK_def)
  have "L_cfg e < K_cfg e \<longrightarrow> int (length dK) = (K_cfg e - L_cfg e) - 1"
    using ldK by auto
  moreover have "K_cfg e = L_cfg e \<longrightarrow> dK = []" using ldK by auto
  ultimately show ?thesis
    using lA nth e' by (simp add: A_def dK_def)
qed

text \<open>
  The theorem at candidate counts 2, 3 and 4: index 0 is the count 2, index 1 the
  count 3.
\<close>

theorem fit_deltaK_witness:
  "\<exists>e' A dK. fit example_histogram (\<lambda>k h. example_trial) example_engine example_data = Inr e' \<and>
     Ak e' = Some A \<and> deltaK e' = Some dK \<and> length A = 3 \<and> length dK = 2 \<and>
     dK ! 0 = A ! 0 \<and> dK ! 1 = (A ! 2 - A ! 1) / A ! 1"
proof -
  from example_fit obtain e' where
    e': "fit example_histogram (\<lambda>k h. example_trial) example_engine example_data = Inr e'" by blast
  from fit_deltaK[OF e'] obtain A dK where
    *: "Ak e' = Some A" "deltaK e' = Some dK" "length A = 3" "int (length dK) = 2"
    "\<forall>i<length dK.
        (2 + int i \<le> 2 \<longrightarrow> dK ! i = A ! i) \<and>
        (2 + int i > 2 \<longrightarrow> dK ! i = (A ! (i + 1) - A ! i) / A ! i)"
    by (auto simp: example_engine_def)
  then have l: "length dK = 2" by simp
  have r: "(2 + int i \<le> 2 \<longrightarrow> dK ! i = A ! i) \<and>
        (2 + int i > 2 \<longrightarrow> dK ! i = (A ! (i + 1) - A ! i) / A ! i)" if "i < 2" for i
    using *(5) l that by simp
  from r[of 0] r[of 1] have "dK ! 0 = A ! 0" "dK ! 1 = (A ! 2 - A ! 1) / A ! 1"
    by (simp_all add: numeral_2_eq_2)
  then show ?thesis using e' *(1,2,3) l by auto
qed

text \<open>
  C7: when some trial of a \<open>fit\<close> call draws fewer than two rows, the call raises (the
  exception is the \<open>IndexError\<close> of \<open>ids_2[0]\<close>); when every trial draws at least two
  rows, and the library calls return what they can return, the call succeeds.
\<close>

theorem fit_degenerate_resample:
  "(L_cfg e \<le> k \<and> k < K_cfg e \<and> 0 \<le> h \<and> h < H_cfg e \<and>
      length (resampled_indices (draw k h)) < 2 \<longrightarrow>
      fit histogram draw e data = Inl IndexError) \<and>
   (L_cfg e \<le> K_cfg e \<and>
      (\<forall>k h. L_cfg e \<le> k \<and> k < K_cfg e \<and> 0 \<le> h \<and> h < H_cfg e \<longrightarrow>
         trial_ok (length data) (draw k h) \<and> 2 \<le> length (resampled_indices (draw k h))) \<longrightarrow>
      (\<exists>e'. fit histogram draw e data = Inr e'))"
  using fit_degenerate[of e k h draw histogram data] fit_ok[of e data draw histogram] by blast

text \<open>
  The first half where the trial for the count 3 at resampling 1 draws the single row
  2; the second half where every trial draws all three rows (three rows at proportion
  0.99).
\<close>

theorem fit_degenerate_resample_witness:
  "fit example_histogram (\<lambda>k h. if k = 3 \<and> h = 1 then \<lparr>resampled_indices = [2], Mh = [0], id_clusts = [0]\<rparr>
               else example_trial) example_engine example_data = Inl IndexError \<and>
   (\<exists>e'. fit example_histogram (\<lambda>k h. example_trial) example_engine example_data = Inr e')"
proof -
  let ?d = "\<lambda>k h. if k = 3 \<and> h = 1 then \<lparr>resampled_indices = [2], Mh = [0], id_clusts = [0]\<rparr>
               else example_trial"
  have "fit example_histogram ?d example_engine example_data = Inl IndexError"
    using fit_degenerate_resample[of example_engine 3 1 ?d example_histogram example_data]
    by (simp add: example_engine_def)
  moreover have "\<exists>e'. fit example_histogram (\<lambda>k h. example_trial) example_engine example_data = Inr e'"
    using fit_degenerate_resample[of example_engine 3 1 "\<lambda>k h. example_trial" example_histogram example_data]
    by (simp add: example_engine_def example_length example_trial_ok example_rows)
  ultimately show ?thesis by simp
qed

text \<open>
  C9: after \<open>fit_from_cfg\<close> on a freshly constructed engine, \<open>Mk\<close> is set (to a
  two-dimensional array) and \<open>bestK\<close> is still unset; the assertion of \<open>predict\<close>, which
  fails exactly when \<open>Mk\<close> is unset, therefore passes.
\<close>

theorem fit_from_cfg_then_predict:
  assumes "init L K H p = Inr e" "fit_from_cfg draw e data = Inr e'"
  shows "(\<exists>m. Mk e' = Some (Arr2 m)) \<and> bestK e' = None \<and> predict e' \<noteq> Inl AssertionError \<and>
     (\<forall>e0. (predict e0 = Inl AssertionError) = (Mk e0 = None))"
proof -
  have b: "bestK e = None" using assms(1) by (auto simp: init_def split: if_splits)
  have m: "(\<exists>m. Mk e' = Some (Arr2 m)) \<and> bestK e' = None"
    using assms(2) b by (auto simp: fit_from_cfg_def Let_def split: sum.splits)
  have g: "(predict e0 = Inl AssertionError) = (Mk e0 = None)" for e0
    by (auto simp: predict_def py_index_def Let_def
        split: option.splits ndarray.splits sum.splits if_splits)
  show ?thesis using m g by auto
qed

text \<open>
  The theorem at three rows and two resamplings; \<open>predict\<close> then stops at
  \<open>None - self.L_\<close>.
\<close>

theorem fit_from_cfg_then_predict_witness:
  "\<exists>e e'. init 2 5 2 (99 / 100) = Inr e \<and>
     fit_from_cfg (\<lambda>h. example_trial) e example_data = Inr e' \<and>
     bestK e' = None \<and> predict e' \<noteq> Inl AssertionError \<and> predict e' = Inl TypeError"
proof -
  have i: "init 2 5 2 (99 / 100) = Inr example_engine"
    by (simp add: init_def example_engine_def)
  from example_fit_from_cfg obtain e' where
    e': "fit_from_cfg (\<lambda>h. example_trial) example_engine example_data = Inr e'" by blast
  from fit_from_cfg_then_predict[OF i e'] have
    *: "\<exists>m. Mk e' = Some (Arr2 m)" "bestK e' = None" "predict e' \<noteq> Inl AssertionError"
    by auto
  then have "predict e' = Inl TypeError" by (auto simp: predict_def)
  then show ?thesis using i e' * by auto
qed

text \<open>
  C10: in a trial of \<open>fit_from_cfg\<close> the loop runs over the labels 0 up to \<open>k - 1\<close>,
  where \<open>k\<close> is the number of distinct labels of the trial. Two different drawn rows
  with the same label in that range are counted once: exactly one of the two cells of
  the pair rises by 1 and the other is unchanged. This holds for every pair with equal
  labels when the labels are exactly 0 up to \<open>k - 1\<close>. A row whose label is \<open>k\<close> or
  greater (or negative) leaves every cell of its row and column unchanged, so its
  cluster contributes no pair counts.
\<close>

theorem cfg_trial_pairs:
  assumes "trial_ok N t" "dims N (fst s)" "cfg_trial N t s = Inr s'"
  shows "(\<forall>p<length (Mh t). \<forall>q<length (Mh t).
            p \<noteq> q \<and> Mh t ! p = Mh t ! q \<and> 0 \<le> Mh t ! p \<and> Mh t ! p < int (card (set (Mh t))) \<longrightarrow>
            counted_once (fst s) (fst s') (resampled_indices t ! p) (resampled_indices t ! q)) \<and>
         (set (Mh t) = {0..<int (card (set (Mh t)))} \<longrightarrow>
            (\<forall>p<length (Mh t). \<forall>q<length (Mh t). p \<noteq> q \<and> Mh t ! p = Mh t ! q \<longrightarrow>
               counted_once (fst s) (fst s') (resampled_indices t ! p) (resampled_indices t ! q))) \<and>
         (\<forall>p<length (Mh t). \<forall>b<N.
            int (card (set (Mh t))) \<le> Mh t ! p \<or> Mh t ! p < 0 \<longrightarrow>
            fst s' ! (resampled_indices t ! p) ! b = fst s ! (resampled_indices t ! p) ! b \<and>
            fst s' ! b ! (resampled_indices t ! p) = fst s ! b ! (resampled_indices t ! p))"
proof (intro conjI allI impI)
  fix p q
  assume "p < length (Mh t)" "q < length (Mh t)"
    "p \<noteq> q \<and> Mh t ! p = Mh t ! q \<and> 0 \<le> Mh t ! p \<and> Mh t ! p < int (card (set (Mh t)))"
  then show "counted_once (fst s) (fst s') (resampled_indices t ! p) (resampled_indices t ! q)"
    using same_cluster_once[OF assms] by blast
next
  fix p q
  assume all: "set (Mh t) = {0..<int (card (set (Mh t)))}"
    and pq: "p < length (Mh t)" "q < length (Mh t)" "p \<noteq> q \<and> Mh t ! p = Mh t ! q"
  have "Mh t ! p \<in> set (Mh t)" using pq(1) by simp
  with all have "0 \<le> Mh t ! p" "Mh t ! p < int (card (set (Mh t)))" by auto
  then show "counted_once (fst s) (fst s') (resampled_indices t ! p) (resampled_indices t ! q)"
    using same_cluster_once[OF assms pq(1,2)] pq(3) by blast
next
  fix p b
  assume "p < length (Mh t)" "b < N" "int (card (set (Mh t))) \<le> Mh t ! p \<or> Mh t ! p < 0"
  then show "fst s' ! (resampled_indices t ! p) ! b = fst s ! (resampled_indices t ! p) ! b"
    "fst s' ! b ! (resampled_indices t ! p) = fst s ! b ! (resampled_indices t ! p)"
    using skipped_cluster_unchanged[OF assms] by blast+
qed

text \<open>
  The theorem at the trial with labels 1, 0, 1 (exactly the labels 0 and 1: the rows 2
  and 1 are counted once), and at a trial with labels 0, 7, 7 (two distinct labels:
  the cluster with label 7 is skipped).
\<close>

theorem cfg_trial_pairs_witness:
  "cfg_trial 3 example_trial (zeros 3, zeros 3) =
     Inr ([[0, 0, 0], [0, 0, 0], [0, 1, 0]], [[0, 1, 0], [0, 0, 0], [1, 1, 0]]) \<and>
   set (Mh example_trial) = {0..<2} \<and>
   counted_once (zeros 3) [[0, 0, 0], [0, 0, 0], [0, 1, 0]] 2 1 \<and>
   cfg_trial 3 skipping_trial (zeros 3, zeros 3) =
     Inr ([[0, 0, 0], [0, 0, 0], [0, 0, 0]], [[0, 1, 1], [0, 0, 1], [0, 0, 0]]) \<and>
   card (set (Mh skipping_trial)) = 2 \<and> Mh skipping_trial ! 1 = 7 \<and>
   [[0, 0, 0], [0, 0, 0], [0, 0, 0]] ! 1 ! 2 = zeros 3 ! 1 ! 2"
proof -
  have c7: "Mh skipping_trial ! 1 = 7" by (simp add: skipping_trial_def)
  have dz: "dims 3 (fst (zeros 3, zeros 3))" by (simp add: dims_zeros)
  note A = cfg_trial_pairs[OF example_trial_ok dz example_cfg_trial,
      THEN conjunct2, THEN conjunct1, rule_format, of 0 2]
  have "counted_once (fst (zeros 3, zeros 3))
      (fst ([[0, 0, 0], [0, 0, 0], [0, 1, 0]], [[0, 1, 0], [0, 0, 0], [1, 1, 0 :: real]]))
      (resampled_indices example_trial ! 0) (resampled_indices example_trial ! 2)"
  proof (rule A)
    show "set (Mh example_trial) = {0..<int (card (set (Mh example_trial)))}"
      by (simp only: example_label_count example_labels) simp
  qed (simp_all add: example_trial_def)
  then have 1: "counted_once (zeros 3) [[0, 0, 0], [0, 0, 0], [0, 1, 0]] 2 1"
    by (simp add: example_trial_def)
  note B = cfg_trial_pairs[OF skipping_trial_ok dz skipping_cfg_trial,
      THEN conjunct2, THEN conjunct2, rule_format, of 1 2]
  have "fst ([[0, 0, 0], [0, 0, 0], [0, 0, 0]], [[0, 1, 1], [0, 0, 1], [0, 0, 0 :: real]])
         ! (resampled_indices skipping_trial ! 1) ! 2 =
        fst (zeros 3, zeros 3) ! (resampled_indices skipping_trial ! 1) ! 2"
  proof (rule B[THEN conjunct1])
    show "int (card (set (Mh skipping_trial))) \<le> Mh skipping_trial ! 1 \<or>
        Mh skipping_trial ! 1 < 0" by (simp only: skipping_label_count c7) simp
  qed (simp_all add: skipping_trial_def)
  then have 2: "[[0, 0, 0], [0, 0, 0], [0, 0, 0]] ! 1 ! 2 = zeros 3 ! 1 ! (2::nat)"
    by (simp add: skipping_trial_def)
  show ?thesis
    using example_labels skipping_label_count c7 1 2 example_cfg_trial skipping_cfg_trial
    by simp
qed

text \<open>
  C8: the counter \<open>Is\<close> is zero when the trials of a candidate count begin, and nothing
  counted for one candidate count reaches the consensus matrix of another. After a
  successful \<open>fit\<close>, for every candidate count \<open>L + i\<close>: the loop over the counts before it
  ends in a state \<open>s\<close> from which the loop over \<open>L + i\<close> and the counts after it goes on
  to the final state; in \<open>s\<close> the counter is the zero array and so is the slice \<open>i\<close> of
  \<open>Mk\<close>, so the trials of \<open>L + i\<close> start from zeros; the counter is zero again after the
  last count; and the matrix stored for \<open>L + i\<close> is the one that \<open>single_count\<close> computes
  from a zero accumulator and a zero counter with the trials of that count alone.
\<close>

theorem fit_counts_independent:
  assumes "fit histogram draw e data = Inr e'"
  shows "\<exists>Ms. Mk e' = Some (Arr3 Ms) \<and> length Ms = nat (K_cfg e - L_cfg e) \<and>
     (\<exists>s'. counts_loop (length data) (L_cfg e) (H_cfg e) draw
              (replicate (nat (K_cfg e - L_cfg e)) (zeros (length data)), zeros (length data))
              (py_range (L_cfg e) (K_cfg e)) = Inr s' \<and>
            fst s' = Ms \<and> snd s' = zeros (length data) \<and>
        (\<forall>i<length Ms.
           (\<exists>s. counts_loop (length data) (L_cfg e) (H_cfg e) draw
                  (replicate (nat (K_cfg e - L_cfg e)) (zeros (length data)),
                   zeros (length data))
                  (py_range (L_cfg e) (L_cfg e + int i)) = Inr s \<and>
                counts_loop (length data) (L_cfg e) (H_cfg e) draw s
                  (py_range (L_cfg e + int i) (K_cfg e)) = Inr s' \<and>
                snd s = zeros (length data) \<and> fst s ! i = zeros (length data)))) \<and>
     (\<forall>i<length Ms. single_count (length data) (H_cfg e) (L_cfg e + int i)
         (draw (L_cfg e + int i)) = Inr (Ms ! i))"
proof -
  define N where "N = length data"
  define n where "n = nat (K_cfg e - L_cfg e)"
  from fit_Inr[OF assms] obtain s' where
    s': "counts_loop N (L_cfg e) (H_cfg e) draw (replicate n (zeros N), zeros N)
            (py_range (L_cfg e) (K_cfg e)) = Inr s'"
    and len: "length (fst s') = n"
    and mk: "Mk e' = Some (Arr3 (fst s'))"
    by (auto simp: N_def n_def)
  have fin: "snd s' = zeros N"
    using counts_loop_final_counter[OF s'] by (simp add: n_def)
  have pre: "\<exists>s. counts_loop N (L_cfg e) (H_cfg e) draw (replicate n (zeros N), zeros N)
                  (py_range (L_cfg e) (L_cfg e + int i)) = Inr s \<and>
                counts_loop N (L_cfg e) (H_cfg e) draw s
                  (py_range (L_cfg e + int i) (K_cfg e)) = Inr s' \<and>
                snd s = zeros N \<and> fst s ! i = zeros N" if "i < length (fst s')" for i
    using counts_loop_prefix[OF s', of i] that len by (simp add: n_def)
  from fit_Mk[OF assms] mk have
    sc: "\<forall>i<length (fst s'). single_count N (H_cfg e) (L_cfg e + int i)
         (draw (L_cfg e + int i)) = Inr (fst s' ! i)"
    by (simp add: N_def)
  show ?thesis
    using mk len s' fin pre sc unfolding N_def n_def by blast
qed

text \<open>
  The theorem at candidate counts 2, 3 and 4: the state in which the loop reaches the
  count 3, and the rest of the loop from there.
\<close>

theorem fit_counts_independent_witness:
  "Mk example_fitted = Some (Arr3 [example_consensus, example_consensus, example_consensus]) \<and>
   counts_loop 3 2 2 (\<lambda>k h. example_trial) (replicate 3 (zeros 3), zeros 3) (py_range 2 5) =
     Inr ([example_consensus, example_consensus, example_consensus], zeros 3) \<and>
   counts_loop 3 2 2 (\<lambda>k h. example_trial) (replicate 3 (zeros 3), zeros 3) (py_range 2 3) =
     Inr ([example_consensus, zeros 3, zeros 3], zeros 3) \<and>
   counts_loop 3 2 2 (\<lambda>k h. example_trial) ([example_consensus, zeros 3, zeros 3], zeros 3)
     (py_range 3 5) =
     Inr ([example_consensus, example_consensus, example_consensus], zeros 3) \<and>
   single_count 3 2 3 (\<lambda>h. example_trial) = Inr example_consensus"
proof -
  have r: "py_range 2 5 = [2, 3, 4]" "py_range 2 3 = [2]" "py_range 3 5 = [3, 4]"
    by (simp_all add: py_range_def upto.simps)
  have rep: "replicate 3 (zeros 3) = [zeros 3, zeros 3, zeros 3]"
    by (simp add: numeral_3_eq_3)
  have p: "counts_loop 3 2 2 (\<lambda>k h. example_trial) (replicate 3 (zeros 3), zeros 3)
      (py_range 2 3) = Inr ([example_consensus, zeros 3, zeros 3], zeros 3)"
    by (simp add: r rep example_trials example_consensus_eval)
  have q: "counts_loop 3 2 2 (\<lambda>k h. example_trial) ([example_consensus, zeros 3, zeros 3], zeros 3)
     (py_range 3 5) = Inr ([example_consensus, example_consensus, example_consensus], zeros 3)"
    by (simp add: r example_trials example_consensus_eval)
  from fit_counts_independent[OF example_fit_eval] obtain Ms where
    Ms: "Mk example_fitted = Some (Arr3 Ms)"
    "\<forall>i<length Ms. single_count (length example_data) (H_cfg example_engine)
        (L_cfg example_engine + int i) (\<lambda>h. example_trial) = Inr (Ms ! i)"
    by blast
  from Ms(1) have eq: "Ms = [example_consensus, example_consensus, example_consensus]"
    by (simp add: example_fitted_def)
  have "(1::nat) < length Ms" using eq by simp
  from Ms(2)[rule_format, OF this]
  have "single_count (length example_data) (H_cfg example_engine)
        (L_cfg example_engine + int 1) (\<lambda>h. example_trial) = Inr (Ms ! 1)" .
  then have sc: "single_count 3 2 3 (\<lambda>h. example_trial) = Inr example_consensus"
    by (simp add: eq example_length example_engine_def)
  show ?thesis
    using Ms(1) eq p q sc example_counts by (simp add: r)
qed



end
